theory Spec2Isabelle
  imports Main
begin

section \<open>Data model\<close>

text \<open>
  The script \<^verbatim>\<open>doge-scrape.py\<close> works on pandas data frames. A frame is modelled by its
  column labels and its rows; every row carries its index label and one cell per column.
  A cell is \<open>None\<close> for a missing value (NaN / None in pandas) and \<open>Some v\<close> otherwise;
  the type \<open>'v\<close> of the values stays a parameter.
\<close>

type_synonym 'v cell = "'v option"

record 'v DataFrame =
  columns :: "string list"
  rows :: "(nat \<times> 'v cell list) list"

text \<open>\<^verbatim>\<open>pd.DataFrame()\<close>: no column, no row.\<close>

definition empty_frame :: "'v DataFrame" where
  "empty_frame = \<lparr>columns = [], rows = []\<rparr>"

text \<open>\<^verbatim>\<open>len(df)\<close>, \<^verbatim>\<open>df.index\<close>, the cells of the rows, and \<^verbatim>\<open>df.empty\<close>
  (true when either axis has length 0).\<close>

definition len :: "'v DataFrame \<Rightarrow> nat" where
  "len df = length (rows df)"

definition index :: "'v DataFrame \<Rightarrow> nat list" where
  "index df = map fst (rows df)"

definition cells :: "'v DataFrame \<Rightarrow> 'v cell list list" where
  "cells df = map snd (rows df)"

definition is_empty :: "'v DataFrame \<Rightarrow> bool" where
  "is_empty df = (columns df = [] \<or> rows df = [])"

text \<open>A frame as pandas builds it: the labels are unique and every row has one cell
  per column.\<close>

definition wf_frame :: "'v DataFrame \<Rightarrow> bool" where
  "wf_frame df = (distinct (columns df) \<and>
     list_all (\<lambda>r. length r = length (columns df)) (cells df))"

text \<open>The cell of a row under a label; a label the row does not have reads as missing.\<close>

definition cell_at :: "string list \<Rightarrow> 'v cell list \<Rightarrow> string \<Rightarrow> 'v cell" where
  "cell_at cols r c = (case map_of (zip cols r) c of Some v \<Rightarrow> v | None \<Rightarrow> None)"

text \<open>A fresh \<^verbatim>\<open>RangeIndex\<close>: the rows are numbered \<open>0, 1, ...\<close> in order.\<close>

definition range_index :: "'v cell list list \<Rightarrow> (nat \<times> 'v cell list) list" where
  "range_index rs = zip [0..<length rs] rs"

section \<open>Exceptions, console output and the remote world\<close>

text \<open>
  The exception classes the handlers of the script tell apart:
  \<^verbatim>\<open>requests.exceptions.RequestException\<close> (with its subclasses, \<^verbatim>\<open>HTTPError\<close> among them),
  \<^verbatim>\<open>zipfile.BadZipFile\<close>, and any other subclass of \<^verbatim>\<open>Exception\<close>.
\<close>

datatype exn = RequestException | BadZipFile | OtherException

text \<open>The lines the script prints, one constructor per \<^verbatim>\<open>print\<close> statement, with the
  values interpolated into the line as arguments.\<close>

datatype msg =
    Downloading string                \<comment> \<open>Downloading {file_name} from USAspending...\<close>
  | Extracting string                 \<comment> \<open>Extracting and reading {file}\<close>
  | ErrorReadingCsv string exn        \<comment> \<open>Error reading CSV file {file}: {read_error}\<close>
  | NoCsvFound string                 \<comment> \<open>No CSV file found in {file_name}\<close>
  | FailedDownload string exn         \<comment> \<open>Failed to download {file_name}: {e}\<close>
  | FailedOpenZip string              \<comment> \<open>Failed to open zip file: {file_name}. ...\<close>
  | UnexpectedDownload exn            \<comment> \<open>An unexpected error occurred during download or extraction: {e}\<close>
  | FetchingDoge string nat           \<comment> \<open>Fetching DOGE contracts from {url} (per_page={per_page})...\<close>
  | Retrieved nat                     \<comment> \<open>Retrieved {len(df)} contracts from DOGE API.\<close>
  | FailedFetchDoge exn               \<comment> \<open>Failed to fetch DOGE contracts from API: {e}\<close>
  | UnexpectedFetch exn               \<comment> \<open>An unexpected error occurred during API fetch: {e}\<close>
  | KeyNotFoundFirst string           \<comment> \<open>'{left_on}' not found in the first dataset (USAspending).\<close>
  | KeyNotFoundSecond string          \<comment> \<open>'{right_on}' not found in the second dataset (DOGE).\<close>
  | Merging string string             \<comment> \<open>Merging datasets on '{left_on}' (USAspending) and '{right_on}' (DOGE)...\<close>
  | Merged nat nat nat                \<comment> \<open>Merged {len(df1)} rows (USAspending) + {len(df2)} rows (DOGE) -> {len(merged)} total rows.\<close>
  | NoDataframesLoaded                \<comment> \<open>No USAspending dataframes were loaded. Cannot proceed with merge.\<close>
  | Concatenating nat                 \<comment> \<open>Concatenating {len(usaspending_dataframes)} USAspending dataframes...\<close>
  | TotalRows nat                     \<comment> \<open>Total rows in concatenated USAspending data: {len(df_usaspending)}\<close>
  | FailedLoadDoge                    \<comment> \<open>Failed to load DOGE data. Cannot proceed with merge.\<close>
  | MergeEmptyWarning                 \<comment> \<open>Merge resulted in an empty DataFrame. Check merge keys and data.\<close>
  | Saved string                      \<comment> \<open>Saved merged data to '{output_filename}'\<close>

text \<open>
  What a server answers. The body is kept as what the library parsers make of it:
  \<^item> \<open>zip_members\<close>: \<^verbatim>\<open>zipfile.ZipFile(io.BytesIO(response.content))\<close> raises, or
    gives the members in the order of \<^verbatim>\<open>namelist()\<close>, each with what
    \<^verbatim>\<open>pd.read_csv(z.open(file), low_memory=False)\<close> does on it (raises, or a frame);
  \<^item> \<open>json_frame\<close>: \<^verbatim>\<open>response.json()\<close> followed by \<^verbatim>\<open>pd.DataFrame(data)\<close> raises, or
    gives a frame.
\<close>

record 'v response =
  status_code :: nat
  zip_members :: "exn + (string \<times> (exn + 'v DataFrame)) list"
  json_frame :: "exn + 'v DataFrame"

text \<open>The network: \<^verbatim>\<open>requests.get(url)\<close> raises or returns a response.\<close>

type_synonym 'v world = "string \<Rightarrow> exn + 'v response"

definition requests_get :: "'v world \<Rightarrow> string \<Rightarrow> exn + 'v response" where
  "requests_get w url = w url"

text \<open>\<^verbatim>\<open>response.raise_for_status()\<close> raises \<^verbatim>\<open>HTTPError\<close>, a \<^verbatim>\<open>RequestException\<close>, on
  a 4xx or 5xx status.\<close>

definition raise_for_status :: "'v response \<Rightarrow> exn + unit" where
  "raise_for_status r =
     (if 400 \<le> status_code r \<and> status_code r < 600 then Inl RequestException else Inr ())"

section \<open>Step 1: download and extract the CSV files\<close>

text \<open>\<^verbatim>\<open>file.endswith('.csv')\<close>.\<close>

definition endswith :: "string \<Rightarrow> string \<Rightarrow> bool" where
  "endswith s suf = (length suf \<le> length s \<and> drop (length s - length suf) s = suf)"

text \<open>The state of the loop over \<^verbatim>\<open>z.namelist()\<close>: the console lines printed, the list
  \<open>dataframes\<close> and the flag \<open>csv_files_found\<close>.\<close>

record 'v extract_state =
  console :: "msg list"
  dataframes :: "'v DataFrame list"
  csv_files_found :: bool

text \<open>One iteration: a member whose name does not end with \<^verbatim>\<open>.csv\<close> is passed over; for
  the others the inner \<^verbatim>\<open>try\<close> appends the frame, or prints the error and goes on.\<close>

definition extract_member ::
  "'v extract_state \<Rightarrow> string \<times> (exn + 'v DataFrame) \<Rightarrow> 'v extract_state" where
  "extract_member s m =
     (case m of (file, parsed) \<Rightarrow>
        if endswith file ''.csv'' then
          (let s1 = s\<lparr>csv_files_found := True, console := console s @ [Extracting file]\<rparr>
           in case parsed of
                Inr df \<Rightarrow> s1\<lparr>dataframes := dataframes s1 @ [df]\<rparr>
              | Inl read_error \<Rightarrow> s1\<lparr>console := console s1 @ [ErrorReadingCsv file read_error]\<rparr>)
        else s)"

fun extract_all ::
  "'v extract_state \<Rightarrow> (string \<times> (exn + 'v DataFrame)) list \<Rightarrow> 'v extract_state" where
  "extract_all s [] = s"
| "extract_all s (m # ms) = extract_all (extract_member s m) ms"

definition download_url :: string where
  "download_url =
     ''https://files.usaspending.gov/award_data_archive/FY2025_All_Contracts_Full_20250506.zip''"

text \<open>The body of the outer \<^verbatim>\<open>try\<close>: it ends normally or with the exception raised,
  and in both cases with the console and the list \<open>dataframes\<close> as they are then.\<close>

definition fetch_usaspending_try ::
  "'v world \<Rightarrow> string \<Rightarrow> 'v extract_state \<Rightarrow> 'v extract_state \<times> exn option" where
  "fetch_usaspending_try w file_name s0 =
     (case requests_get w download_url of
        Inl e \<Rightarrow> (s0, Some e)
      | Inr response \<Rightarrow>
          (case raise_for_status response of
             Inl e \<Rightarrow> (s0, Some e)
           | Inr _ \<Rightarrow>
               (case zip_members response of
                  Inl e \<Rightarrow> (s0, Some e)
                | Inr z \<Rightarrow>
                    (let s1 = extract_all (s0\<lparr>csv_files_found := False\<rparr>) z;
                         s2 = (if \<not> csv_files_found s1
                               then s1\<lparr>console := console s1 @ [NoCsvFound file_name]\<rparr>
                               else s1)
                     in (s2, None)))))"

text \<open>The handlers, in the order of the source, then \<^verbatim>\<open>return dataframes\<close>. The
  result is the console output and the returned list; \<open>Inl\<close> would be an exception
  that leaves the function.\<close>

definition fetch_usaspending_data ::
  "'v world \<Rightarrow> string \<Rightarrow> exn + (msg list \<times> 'v DataFrame list)" where
  "fetch_usaspending_data w file_name =
     (let s0 = \<lparr>console = [Downloading file_name], dataframes = [], csv_files_found = False\<rparr>
      in case fetch_usaspending_try w file_name s0 of
           (s, None) \<Rightarrow> Inr (console s, dataframes s)
         | (s, Some RequestException) \<Rightarrow>
             Inr (console s @ [FailedDownload file_name RequestException], dataframes s)
         | (s, Some BadZipFile) \<Rightarrow>
             Inr (console s @ [FailedOpenZip file_name], dataframes s)
         | (s, Some e) \<Rightarrow>
             Inr (console s @ [UnexpectedDownload e], dataframes s))"

section \<open>Step 2: fetch the DOGE contracts\<close>

text \<open>Python's \<^verbatim>\<open>str\<close> of a natural number, for the f-string of the URL.\<close>

definition digit_char :: "nat \<Rightarrow> char" where
  "digit_char d = char_of (48 + d)"

fun str_nat :: "nat \<Rightarrow> string" where
  "str_nat n = (if n < 10 then [digit_char n] else str_nat (n div 10) @ [digit_char (n mod 10)])"

definition doge_url :: "nat \<Rightarrow> string" where
  "doge_url per_page = ''https://api.doge.gov/savings/contracts?per_page='' @ str_nat per_page"

definition fetch_doge_try :: "'v world \<Rightarrow> string \<Rightarrow> exn + 'v DataFrame" where
  "fetch_doge_try w url =
     (case requests_get w url of
        Inl e \<Rightarrow> Inl e
      | Inr response \<Rightarrow>
          (case raise_for_status response of
             Inl e \<Rightarrow> Inl e
           | Inr _ \<Rightarrow> json_frame response))"

definition fetch_doge_contracts ::
  "'v world \<Rightarrow> nat \<Rightarrow> exn + (msg list \<times> 'v DataFrame)" where
  "fetch_doge_contracts w per_page =
     (let url = doge_url per_page;
          out = [FetchingDoge url per_page]
      in case fetch_doge_try w url of
           Inr df \<Rightarrow> Inr (out @ [Retrieved (len df)], df)
         | Inl RequestException \<Rightarrow> Inr (out @ [FailedFetchDoge RequestException], empty_frame)
         | Inl e \<Rightarrow> Inr (out @ [UnexpectedFetch e], empty_frame))"

section \<open>The pandas operations the script calls\<close>

text \<open>
  \<^verbatim>\<open>pd.concat\<close> and \<^verbatim>\<open>pd.merge\<close> are library functions; the script only calls them.
  They are modelled here after the documented behaviour of pandas, on frames with unique
  column labels and one type of values. Not modelled: the order in which an outer merge
  returns its rows, the change of a column's dtype when missing values enter it, and the
  exceptions pandas raises on frames outside this model (key columns of incompatible dtypes,
  labels that clash after suffixing). pandas orders the rows of an outer merge by key; here
  they are listed left rows first, each with its partners, then the right rows without
  partner. Hence the merged frame of this model is the merged frame of pandas up to a
  permutation of its rows: what is stated below about which rows occur, how often, and how
  many there are carries over; the position of a row in the list (in the equation between
  the rows and the indexers, and in the rows of the examples) is that of the model only.
\<close>

subsection \<open>\<^verbatim>\<open>pd.concat(objs, ignore_index=True)\<close>\<close>

text \<open>The labels of the result: the union of the labels of the frames, each at its first
  occurrence.\<close>

definition union_columns :: "'v DataFrame list \<Rightarrow> string list" where
  "union_columns dfs = rev (remdups (rev (concat (map columns dfs))))"

text \<open>A row moved to new labels: a label the frame lacks is filled with a missing value.\<close>

definition reindex_row :: "string list \<Rightarrow> string list \<Rightarrow> 'v cell list \<Rightarrow> 'v cell list" where
  "reindex_row new_cols cols r = map (cell_at cols r) new_cols"

definition stacked_rows :: "string list \<Rightarrow> 'v DataFrame list \<Rightarrow> 'v cell list list" where
  "stacked_rows cols dfs = concat (map (\<lambda>df. map (reindex_row cols (columns df)) (cells df)) dfs)"

text \<open>On an empty list pandas raises \<^verbatim>\<open>ValueError: No objects to concatenate\<close>. With
  \<^verbatim>\<open>ignore_index=True\<close> the result gets a fresh index.\<close>

definition pd_concat :: "'v DataFrame list \<Rightarrow> exn + 'v DataFrame" where
  "pd_concat dfs =
     (if dfs = [] then Inl OtherException
      else (let cols = union_columns dfs
            in Inr \<lparr>columns = cols, rows = range_index (stacked_rows cols dfs)\<rparr>))"

subsection \<open>\<^verbatim>\<open>pd.merge(df1, df2, left_on=..., right_on=..., how='outer')\<close>\<close>

text \<open>The key of every row of a frame.\<close>

definition key_column :: "'v DataFrame \<Rightarrow> string \<Rightarrow> 'v cell list" where
  "key_column df k = map (\<lambda>r. cell_at (columns df) r k) (cells df)"

text \<open>
  The join indexers of an outer join, as pandas computes them from the two key columns:
  a pair \<open>(Some i, Some j)\<close> for every left row \<open>i\<close> and right row \<open>j\<close> with equal keys,
  \<open>(Some i, None)\<close> for a left row without partner and \<open>(None, Some j)\<close> for a right row
  without partner. Keys are compared with equality of cells, so a missing key equals a
  missing key: pandas matches rows whose keys are both null with each other (its
  documentation warns that this differs from SQL).
\<close>

definition left_matches :: "'k list \<Rightarrow> 'k \<Rightarrow> nat list" where
  "left_matches rkeys k = filter (\<lambda>j. rkeys ! j = k) [0..<length rkeys]"

definition left_pairs :: "'k list \<Rightarrow> nat \<Rightarrow> 'k \<Rightarrow> (nat option \<times> nat option) list" where
  "left_pairs rkeys i k =
     (let ms = left_matches rkeys k
      in if ms = [] then [(Some i, None)] else map (\<lambda>j. (Some i, Some j)) ms)"

definition right_only :: "'k list \<Rightarrow> 'k list \<Rightarrow> nat list" where
  "right_only lkeys rkeys = filter (\<lambda>j. rkeys ! j \<notin> set lkeys) [0..<length rkeys]"

definition outer_indexers :: "'k list \<Rightarrow> 'k list \<Rightarrow> (nat option \<times> nat option) list" where
  "outer_indexers lkeys rkeys =
     concat (map (\<lambda>i. left_pairs rkeys i (lkeys ! i)) [0..<length lkeys])
     @ map (\<lambda>j. (None, Some j)) (right_only lkeys rkeys)"

text \<open>The cells of a row without the cell under label \<open>k\<close>.\<close>

definition drop_label :: "string \<Rightarrow> string list \<Rightarrow> 'a list \<Rightarrow> 'a list" where
  "drop_label k cols r = map snd (filter (\<lambda>cv. fst cv \<noteq> k) (zip cols r))"

text \<open>
  The labels of the right frame that reach the result: when both keys have the same name
  pandas keeps one key column, at its place among the left columns, and drops the right one.
\<close>

definition right_labels :: "string list \<Rightarrow> string \<Rightarrow> string \<Rightarrow> string list" where
  "right_labels rc lk rk = (if lk = rk then filter (\<lambda>c. c \<noteq> rk) rc else rc)"

text \<open>Labels that occur on both sides get the default suffixes \<^verbatim>\<open>_x\<close> and \<^verbatim>\<open>_y\<close>.\<close>

definition merged_columns :: "string list \<Rightarrow> string list \<Rightarrow> string \<Rightarrow> string \<Rightarrow> string list" where
  "merged_columns lc rc lk rk =
     (let rc' = right_labels rc lk rk
      in map (\<lambda>c. if c \<in> set rc' then c @ ''_x'' else c) lc
         @ map (\<lambda>c. if c \<in> set lc then c @ ''_y'' else c) rc')"

text \<open>
  The left part of a result row: the left row, or missing values for a right row without
  partner; with one shared key column, that column then takes the key of the right row.
\<close>

definition left_part ::
  "'v DataFrame \<Rightarrow> 'v DataFrame \<Rightarrow> string \<Rightarrow> string \<Rightarrow> nat option \<times> nat option \<Rightarrow> 'v cell list" where
  "left_part df1 df2 lk rk p =
     (case p of
        (Some i, _) \<Rightarrow> cells df1 ! i
      | (None, Some j) \<Rightarrow>
          (if lk = rk
           then map (\<lambda>c. if c = lk then key_column df2 rk ! j else None) (columns df1)
           else replicate (length (columns df1)) None)
      | (None, None) \<Rightarrow> replicate (length (columns df1)) None)"

definition right_part ::
  "'v DataFrame \<Rightarrow> string \<Rightarrow> string \<Rightarrow> nat option \<times> nat option \<Rightarrow> 'v cell list" where
  "right_part df2 lk rk p =
     (case snd p of
        Some j \<Rightarrow> (if lk = rk then drop_label rk (columns df2) (cells df2 ! j) else cells df2 ! j)
      | None \<Rightarrow> replicate (length (right_labels (columns df2) lk rk)) None)"

definition merged_row ::
  "'v DataFrame \<Rightarrow> 'v DataFrame \<Rightarrow> string \<Rightarrow> string \<Rightarrow> nat option \<times> nat option \<Rightarrow> 'v cell list" where
  "merged_row df1 df2 lk rk p = left_part df1 df2 lk rk p @ right_part df2 lk rk p"

definition pd_merge_outer ::
  "'v DataFrame \<Rightarrow> 'v DataFrame \<Rightarrow> string \<Rightarrow> string \<Rightarrow> 'v DataFrame" where
  "pd_merge_outer df1 df2 left_on right_on =
     \<lparr>columns = merged_columns (columns df1) (columns df2) left_on right_on,
      rows = range_index (map (merged_row df1 df2 left_on right_on)
               (outer_indexers (key_column df1 left_on) (key_column df2 right_on)))\<rparr>"

section \<open>Step 3: merge on the given keys\<close>

definition merge_data ::
  "'v DataFrame \<Rightarrow> 'v DataFrame \<Rightarrow> string \<Rightarrow> string \<Rightarrow> msg list \<times> 'v DataFrame" where
  "merge_data df1 df2 left_on right_on =
     (if left_on \<notin> set (columns df1) then ([KeyNotFoundFirst left_on], empty_frame)
      else if right_on \<notin> set (columns df2) then ([KeyNotFoundSecond right_on], empty_frame)
      else (let merged = pd_merge_outer df1 df2 left_on right_on
            in ([Merging left_on right_on, Merged (len df1) (len df2) (len merged)], merged)))"

section \<open>The main flow\<close>

definition usaspending_file_name :: string where
  "usaspending_file_name = ''FY2025_All_Contracts_Full_20250506.zip''"

definition usaspending_merge_key :: string where
  "usaspending_merge_key = ''award_id_piid''"

definition doge_merge_key :: string where
  "doge_merge_key = ''piid''"

definition output_filename :: string where
  "output_filename = ''merged_award_data_by_piid.csv''"

text \<open>\<^verbatim>\<open>df.to_csv(path, index=False)\<close> writes the header and the rows without the index.\<close>

type_synonym 'v csv_file = "string \<times> string list \<times> 'v cell list list"

definition to_csv :: "'v DataFrame \<Rightarrow> string \<Rightarrow> 'v csv_file" where
  "to_csv df path = (path, columns df, cells df)"

text \<open>
  A run of \<open>main\<close> gives the lines printed and the file written, if any; \<open>Inl\<close> is an
  exception that no handler caught. \<^verbatim>\<open>fetch_doge_contracts()\<close> is called with its default
  \<^verbatim>\<open>per_page=500\<close>.
\<close>

definition main :: "'v world \<Rightarrow> exn + (msg list \<times> 'v csv_file option)" where
  "main w =
     (case fetch_usaspending_data w usaspending_file_name of
        Inl e \<Rightarrow> Inl e
      | Inr (out1, usaspending_dataframes) \<Rightarrow>
          if usaspending_dataframes = [] then Inr (out1 @ [NoDataframesLoaded], None)
          else
            (case pd_concat usaspending_dataframes of
               Inl e \<Rightarrow> Inl e
             | Inr df_usaspending \<Rightarrow>
                 (let out2 = out1 @ [Concatenating (length usaspending_dataframes),
                                     TotalRows (len df_usaspending)]
                  in case fetch_doge_contracts w 500 of
                       Inl e \<Rightarrow> Inl e
                     | Inr (out3, df_doge) \<Rightarrow>
                         if is_empty df_doge then Inr (out2 @ out3 @ [FailedLoadDoge], None)
                         else
                           (case merge_data df_usaspending df_doge
                                   usaspending_merge_key doge_merge_key of
                              (out4, merged_df) \<Rightarrow>
                                if is_empty merged_df \<and>
                                   (\<not> is_empty df_usaspending \<and> \<not> is_empty df_doge)
                                then Inr (out2 @ out3 @ out4 @ [MergeEmptyWarning], None)
                                else if \<not> is_empty merged_df
                                then Inr (out2 @ out3 @ out4 @ [Saved output_filename],
                                          Some (to_csv merged_df output_filename))
                                else Inr (out2 @ out3 @ out4, None)))))"

section \<open>Example inputs\<close>

text \<open>Two CSV frames of an archive, the frame of the feed, and two worlds: one that
  serves an archive of four members and the feed, one where every request fails.\<close>

definition ex_contracts :: "string DataFrame" where
  "ex_contracts = \<lparr>columns = [''award_id_piid'', ''amount''],
     rows = [(0, [Some ''P1'', Some ''100'']), (1, [Some ''P2'', Some ''200''])]\<rparr>"

definition ex_contracts_2 :: "string DataFrame" where
  "ex_contracts_2 = \<lparr>columns = [''award_id_piid'', ''agency''],
     rows = [(0, [Some ''P4'', Some ''GSA''])]\<rparr>"

definition ex_doge :: "string DataFrame" where
  "ex_doge = \<lparr>columns = [''piid'', ''savings''],
     rows = [(0, [Some ''P1'', Some ''50'']), (1, [Some ''P3'', Some ''10''])]\<rparr>"

definition ex_members :: "(string \<times> (exn + string DataFrame)) list" where
  "ex_members = [(''contracts_1.csv'', Inr ex_contracts), (''README.txt'', Inr ex_doge),
     (''broken.csv'', Inl OtherException), (''contracts_2.csv'', Inr ex_contracts_2)]"

definition ex_archive :: "string response" where
  "ex_archive = \<lparr>status_code = 200, zip_members = Inr ex_members,
     json_frame = Inl OtherException\<rparr>"

definition ex_feed :: "string response" where
  "ex_feed = \<lparr>status_code = 200, zip_members = Inl BadZipFile, json_frame = Inr ex_doge\<rparr>"

definition ex_world :: "string world" where
  "ex_world url = (if url = download_url then Inr ex_archive
                   else if url = doge_url 500 then Inr ex_feed
                   else Inl RequestException)"

definition ex_offline :: "string world" where
  "ex_offline url = Inl RequestException"

text \<open>Frames whose keys repeat, and frames with a missing key.\<close>

definition ex_dup_left :: "string DataFrame" where
  "ex_dup_left = \<lparr>columns = [''award_id_piid'', ''amount''],
     rows = [(0, [Some ''P1'', Some ''100'']), (1, [Some ''P1'', Some ''200''])]\<rparr>"

definition ex_dup_right :: "string DataFrame" where
  "ex_dup_right = \<lparr>columns = [''piid'', ''savings''],
     rows = [(0, [Some ''P1'', Some ''50'']), (1, [Some ''P1'', Some ''10'']),
             (2, [Some ''P1'', Some ''5''])]\<rparr>"

definition ex_null_left :: "string DataFrame" where
  "ex_null_left = \<lparr>columns = [''award_id_piid'', ''amount''],
     rows = [(0, [None, Some ''100''])]\<rparr>"

definition ex_null_right :: "string DataFrame" where
  "ex_null_right = \<lparr>columns = [''piid'', ''savings''],
     rows = [(0, [None, Some ''50''])]\<rparr>"

text \<open>Frames where a key repeats, but none on both sides.\<close>

definition ex_rep_left :: "string DataFrame" where
  "ex_rep_left = \<lparr>columns = [''award_id_piid'', ''amount''],
     rows = [(0, [Some ''P1'', Some ''100'']), (1, [Some ''P1'', Some ''200'']),
             (2, [Some ''P2'', Some ''300''])]\<rparr>"

definition ex_rep_right :: "string DataFrame" where
  "ex_rep_right = \<lparr>columns = [''piid'', ''savings''],
     rows = [(0, [Some ''P1'', Some ''50'']), (1, [Some ''P2'', Some ''10'']),
             (2, [Some ''P2'', Some ''5''])]\<rparr>"

text \<open>A world whose feed cannot be reached, and the frames the example run passes
  through: the concatenated archive and the merged result.\<close>

definition ex_no_feed :: "string world" where
  "ex_no_feed url = (if url = download_url then Inr ex_archive else Inl RequestException)"

definition ex_usaspending :: "string DataFrame" where
  "ex_usaspending = \<lparr>columns = [''award_id_piid'', ''amount'', ''agency''],
     rows = [(0, [Some ''P1'', Some ''100'', None]), (1, [Some ''P2'', Some ''200'', None]),
             (2, [Some ''P4'', None, Some ''GSA''])]\<rparr>"

definition ex_merged :: "string DataFrame" where
  "ex_merged = \<lparr>columns = [''award_id_piid'', ''amount'', ''agency'', ''piid'', ''savings''],
     rows = [(0, [Some ''P1'', Some ''100'', None, Some ''P1'', Some ''50'']),
             (1, [Some ''P2'', Some ''200'', None, None, None]),
             (2, [Some ''P4'', None, Some ''GSA'', None, None]),
             (3, [None, None, None, Some ''P3'', Some ''10''])]\<rparr>"

section \<open>The archive fetcher\<close>

lemma extract_member_skip:
  "\<not> endswith (fst m) ''.csv'' \<Longrightarrow> extract_member s m = s"
  by (cases m) (simp add: extract_member_def)

lemma extract_all_filter:
  "extract_all s (filter (\<lambda>m. endswith (fst m) ''.csv'') z) = extract_all s z"
  by (induction z arbitrary: s) (simp_all add: extract_member_skip)

lemma extract_all_none:
  "\<forall>m\<in>set z. \<not> endswith (fst m) ''.csv'' \<Longrightarrow> extract_all s z = s"
  by (induction z arbitrary: s) (simp_all add: extract_member_skip)

lemma extract_member_frames:
  "dataframes (extract_member s m) =
     dataframes s @
     (if endswith (fst m) ''.csv'' \<and> \<not> isl (snd m) then [projr (snd m)] else [])"
  by (cases m) (auto simp: extract_member_def Let_def split: sum.splits)

lemma extract_all_frames:
  "dataframes (extract_all s z) =
     dataframes s @
     map (\<lambda>m. projr (snd m)) (filter (\<lambda>m. endswith (fst m) ''.csv'' \<and> \<not> isl (snd m)) z)"
  by (induction z arbitrary: s) (simp_all add: extract_member_frames)

lemma try_frames:
  "dataframes (fst (fetch_usaspending_try w file_name s0)) =
     (case requests_get w download_url of
        Inl e \<Rightarrow> dataframes s0
      | Inr r \<Rightarrow>
          (case raise_for_status r of
             Inl e \<Rightarrow> dataframes s0
           | Inr _ \<Rightarrow>
               (case zip_members r of
                  Inl e \<Rightarrow> dataframes s0
                | Inr z \<Rightarrow>
                    dataframes s0 @
                    map (\<lambda>m. projr (snd m))
                      (filter (\<lambda>m. endswith (fst m) ''.csv'' \<and> \<not> isl (snd m)) z))))"
  by (simp add: fetch_usaspending_try_def Let_def extract_all_frames split: sum.splits)

lemma fetch_usaspending_frames:
  "map_sum id snd (fetch_usaspending_data w file_name) =
     Inr (dataframes (fst (fetch_usaspending_try w file_name
        \<lparr>console = [Downloading file_name], dataframes = [], csv_files_found = False\<rparr>)))"
  by (simp add: fetch_usaspending_data_def Let_def split: prod.splits option.splits exn.splits)

lemma fetch_usaspending_returns:
  "\<exists>out dfs. fetch_usaspending_data w file_name = Inr (out, dfs)"
  by (simp add: fetch_usaspending_data_def Let_def split: prod.splits option.splits exn.splits)

text \<open>
  Claim C5. The fetcher always returns a list and lets no exception out. When the archive
  opens, the list holds the frame of every member named \<^verbatim>\<open>*.csv\<close> that parsed, in the
  order of the archive, whatever happened to the other members: a member that fails to
  parse is skipped and the later ones are still read. When the request fails, the status is
  an error or the body is no zip archive, the list is empty.
\<close>

theorem fetch_usaspending_error_isolation:
  "(\<exists>out dfs. fetch_usaspending_data w file_name = Inr (out, dfs)) \<and>
   (\<forall>r z. requests_get w download_url = Inr r \<and> raise_for_status r = Inr ()
          \<and> zip_members r = Inr z \<longrightarrow>
      map_sum id snd (fetch_usaspending_data w file_name) =
        Inr (map (\<lambda>m. projr (snd m))
               (filter (\<lambda>m. endswith (fst m) ''.csv'' \<and> \<not> isl (snd m)) z))) \<and>
   (\<forall>e. requests_get w download_url = Inl e \<or>
        (\<exists>r. requests_get w download_url = Inr r \<and>
             (raise_for_status r = Inl e \<or>
              (raise_for_status r = Inr () \<and> zip_members r = Inl e))) \<longrightarrow>
      map_sum id snd (fetch_usaspending_data w file_name) = Inr [])"
proof (intro conjI allI impI)
  show "\<exists>out dfs. fetch_usaspending_data w file_name = Inr (out, dfs)"
    by (rule fetch_usaspending_returns)
next
  fix r z
  assume "requests_get w download_url = Inr r \<and> raise_for_status r = Inr ()
          \<and> zip_members r = Inr z"
  then show "map_sum id snd (fetch_usaspending_data w file_name) =
        Inr (map (\<lambda>m. projr (snd m))
               (filter (\<lambda>m. endswith (fst m) ''.csv'' \<and> \<not> isl (snd m)) z))"
    by (simp add: fetch_usaspending_frames try_frames)
next
  fix e
  assume "requests_get w download_url = Inl e \<or>
        (\<exists>r. requests_get w download_url = Inr r \<and>
             (raise_for_status r = Inl e \<or>
              (raise_for_status r = Inr () \<and> zip_members r = Inl e)))"
  then show "map_sum id snd (fetch_usaspending_data w file_name) = Inr []"
    by (auto simp: fetch_usaspending_frames try_frames)
qed

theorem fetch_usaspending_error_isolation_witness:
  "requests_get ex_world download_url = Inr ex_archive
   \<and> raise_for_status ex_archive = Inr ()
   \<and> zip_members ex_archive = Inr ex_members
   \<and> map_sum id snd (fetch_usaspending_data ex_world ''a.zip'') =
       Inr [ex_contracts, ex_contracts_2]
   \<and> requests_get ex_offline download_url = Inl RequestException
   \<and> map_sum id snd (fetch_usaspending_data ex_offline ''a.zip'') = Inr []"
proof -
  have h: "requests_get ex_world download_url = Inr ex_archive
           \<and> raise_for_status ex_archive = Inr () \<and> zip_members ex_archive = Inr ex_members"
    by (simp add: requests_get_def ex_world_def raise_for_status_def ex_archive_def)
  have f: "map (\<lambda>m. projr (snd m))
             (filter (\<lambda>m. endswith (fst m) ''.csv'' \<and> \<not> isl (snd m)) ex_members)
           = [ex_contracts, ex_contracts_2]"
    by (simp add: ex_members_def endswith_def)
  have g: "requests_get ex_offline download_url = Inl RequestException"
    by (simp add: requests_get_def ex_offline_def)
  show ?thesis
    using h f g fetch_usaspending_error_isolation [of ex_world "''a.zip''"]
      fetch_usaspending_error_isolation [of ex_offline "''a.zip''"]
    by simp
qed

text \<open>
  Claim C9. The list the fetcher returns is the same for any two archive names; the name
  only goes into the printed lines. The URL requested is the constant \<open>download_url\<close>:
  two worlds that answer alike there give the same result.
\<close>

theorem archive_name_noninterference:
  "map_sum id snd (fetch_usaspending_data w name1) =
     map_sum id snd (fetch_usaspending_data w name2)
   \<and> (w download_url = w' download_url \<longrightarrow>
        fetch_usaspending_data w name1 = fetch_usaspending_data w' name1)"
proof
  show "map_sum id snd (fetch_usaspending_data w name1) =
          map_sum id snd (fetch_usaspending_data w name2)"
    by (simp add: fetch_usaspending_frames try_frames split: sum.splits)
  show "w download_url = w' download_url \<longrightarrow>
        fetch_usaspending_data w name1 = fetch_usaspending_data w' name1"
    by (simp add: fetch_usaspending_data_def fetch_usaspending_try_def requests_get_def)
qed

theorem archive_name_noninterference_witness:
  "map_sum id snd (fetch_usaspending_data ex_world ''a.zip'') =
     map_sum id snd (fetch_usaspending_data ex_world ''b.zip'')
   \<and> ex_world download_url = (ex_world(''elsewhere'' := Inl BadZipFile)) download_url
   \<and> fetch_usaspending_data ex_world ''a.zip'' =
       fetch_usaspending_data (ex_world(''elsewhere'' := Inl BadZipFile)) ''a.zip''"
proof -
  have h: "ex_world download_url = (ex_world(''elsewhere'' := Inl BadZipFile)) download_url"
    by (simp add: download_url_def)
  show ?thesis
    using h archive_name_noninterference
      [of ex_world "''a.zip''" "''b.zip''" "ex_world(''elsewhere'' := Inl BadZipFile)"]
    by blast
qed

lemma extract_member_console:
  "console (extract_member s m) =
     console s @
     (if endswith (fst m) ''.csv''
      then Extracting (fst m) #
           (case snd m of Inl e \<Rightarrow> [ErrorReadingCsv (fst m) e] | Inr df \<Rightarrow> [])
      else [])"
  by (cases m) (auto simp: extract_member_def Let_def split: sum.splits)

lemma extract_all_console:
  "console (extract_all s z) =
     console s @
     concat (map (\<lambda>m. Extracting (fst m) #
                    (case snd m of Inl e \<Rightarrow> [ErrorReadingCsv (fst m) e] | Inr df \<Rightarrow> []))
               (filter (\<lambda>m. endswith (fst m) ''.csv'') z))"
  by (induction z arbitrary: s) (simp_all add: extract_member_console)

lemma extract_member_found:
  "csv_files_found (extract_member s m) = (csv_files_found s \<or> endswith (fst m) ''.csv'')"
  by (cases m) (auto simp: extract_member_def Let_def split: sum.splits)

lemma extract_all_found:
  "csv_files_found (extract_all s z) =
     (csv_files_found s \<or> filter (\<lambda>m. endswith (fst m) ''.csv'') z \<noteq> [])"
  by (induction z arbitrary: s) (auto simp: extract_member_found)

lemma fetch_usaspending_opened:
  assumes "requests_get w download_url = Inr r" and "raise_for_status r = Inr ()"
    and "zip_members r = Inr z"
  shows "fetch_usaspending_data w file_name =
           Inr ([Downloading file_name]
                @ concat (map (\<lambda>m. Extracting (fst m) #
                      (case snd m of Inl e \<Rightarrow> [ErrorReadingCsv (fst m) e] | Inr df \<Rightarrow> []))
                    (filter (\<lambda>m. endswith (fst m) ''.csv'') z))
                @ (if filter (\<lambda>m. endswith (fst m) ''.csv'') z = []
                   then [NoCsvFound file_name] else []),
                map (\<lambda>m. projr (snd m))
                  (filter (\<lambda>m. endswith (fst m) ''.csv'' \<and> \<not> isl (snd m)) z))"
  using assms
  by (simp add: fetch_usaspending_data_def fetch_usaspending_try_def Let_def
      extract_all_console extract_all_found extract_all_frames)

text \<open>
  Claim C10. Only the name decides whether a member is read. When the archive opens, the
  fetcher prints "Extracting" for exactly the members whose name ends with \<^verbatim>\<open>.csv\<close>, in
  the order of the archive, and returns the frames of those of them that parsed; it gives
  the same result, printed lines included, on the archive reduced to these members, so the
  content of the other members is never looked at. When no name ends with \<^verbatim>\<open>.csv\<close> the
  list is empty and the line "No CSV file found" is printed.
\<close>

theorem csv_suffix_filter:
  assumes "requests_get w download_url = Inr r" and "raise_for_status r = Inr ()"
    and "zip_members r = Inr z"
  shows "fetch_usaspending_data w file_name =
           Inr ([Downloading file_name]
                @ concat (map (\<lambda>m. Extracting (fst m) #
                      (case snd m of Inl e \<Rightarrow> [ErrorReadingCsv (fst m) e] | Inr df \<Rightarrow> []))
                    (filter (\<lambda>m. endswith (fst m) ''.csv'') z))
                @ (if filter (\<lambda>m. endswith (fst m) ''.csv'') z = []
                   then [NoCsvFound file_name] else []),
                map (\<lambda>m. projr (snd m))
                  (filter (\<lambda>m. endswith (fst m) ''.csv'' \<and> \<not> isl (snd m)) z))
         \<and> fetch_usaspending_data w file_name =
           fetch_usaspending_data
             (w(download_url := Inr (r\<lparr>zip_members :=
                  Inr (filter (\<lambda>m. endswith (fst m) ''.csv'') z)\<rparr>)))
             file_name
         \<and> ((\<forall>m\<in>set z. \<not> endswith (fst m) ''.csv'') \<longrightarrow>
              fetch_usaspending_data w file_name =
                Inr ([Downloading file_name, NoCsvFound file_name], []))"
proof (intro conjI)
  show "fetch_usaspending_data w file_name =
           Inr ([Downloading file_name]
                @ concat (map (\<lambda>m. Extracting (fst m) #
                      (case snd m of Inl e \<Rightarrow> [ErrorReadingCsv (fst m) e] | Inr df \<Rightarrow> []))
                    (filter (\<lambda>m. endswith (fst m) ''.csv'') z))
                @ (if filter (\<lambda>m. endswith (fst m) ''.csv'') z = []
                   then [NoCsvFound file_name] else []),
                map (\<lambda>m. projr (snd m))
                  (filter (\<lambda>m. endswith (fst m) ''.csv'' \<and> \<not> isl (snd m)) z))"
    using assms by (rule fetch_usaspending_opened)
next
  have "raise_for_status (r\<lparr>zip_members :=
          Inr (filter (\<lambda>m. endswith (fst m) ''.csv'') z)\<rparr>) = Inr ()"
    using assms(2) by (simp add: raise_for_status_def)
  then show "fetch_usaspending_data w file_name =
           fetch_usaspending_data
             (w(download_url := Inr (r\<lparr>zip_members :=
                  Inr (filter (\<lambda>m. endswith (fst m) ''.csv'') z)\<rparr>)))
             file_name"
    using assms
    by (simp add: fetch_usaspending_data_def fetch_usaspending_try_def requests_get_def
        extract_all_filter Let_def)
next
  show "(\<forall>m\<in>set z. \<not> endswith (fst m) ''.csv'') \<longrightarrow>
              fetch_usaspending_data w file_name =
                Inr ([Downloading file_name, NoCsvFound file_name], [])"
    using assms
    by (simp add: fetch_usaspending_data_def fetch_usaspending_try_def extract_all_none Let_def)
qed

theorem csv_suffix_filter_witness:
  "requests_get ex_world download_url = Inr ex_archive
   \<and> raise_for_status ex_archive = Inr ()
   \<and> zip_members ex_archive = Inr ex_members
   \<and> fetch_usaspending_data ex_world ''a.zip'' =
       Inr ([Downloading ''a.zip'', Extracting ''contracts_1.csv'', Extracting ''broken.csv'',
             ErrorReadingCsv ''broken.csv'' OtherException, Extracting ''contracts_2.csv''],
            [ex_contracts, ex_contracts_2])
   \<and> fetch_usaspending_data ex_world ''a.zip'' =
       fetch_usaspending_data
         (ex_world(download_url := Inr (ex_archive\<lparr>zip_members :=
            Inr [(''contracts_1.csv'', Inr ex_contracts), (''broken.csv'', Inl OtherException),
                 (''contracts_2.csv'', Inr ex_contracts_2)]\<rparr>)))
         ''a.zip''
   \<and> \<not> endswith ''README.txt'' ''.csv''
   \<and> fetch_usaspending_data
        (\<lambda>url. Inr (ex_archive\<lparr>zip_members := Inr [(''README.txt'', Inr ex_doge)]\<rparr>)) ''a.zip''
       = Inr ([Downloading ''a.zip'', NoCsvFound ''a.zip''], [])"
proof -
  have h1: "requests_get ex_world download_url = Inr ex_archive"
    by (simp add: requests_get_def ex_world_def)
  have h2: "raise_for_status ex_archive = Inr ()"
    by (simp add: raise_for_status_def ex_archive_def)
  have h3: "zip_members ex_archive = Inr ex_members"
    by (simp add: ex_archive_def)
  have f: "filter (\<lambda>m. endswith (fst m) ''.csv'') ex_members =
      [(''contracts_1.csv'', Inr ex_contracts), (''broken.csv'', Inl OtherException),
       (''contracts_2.csv'', Inr ex_contracts_2)]"
    by (simp add: ex_members_def endswith_def)
  have g: "filter (\<lambda>m. endswith (fst m) ''.csv'' \<and> \<not> isl (snd m)) ex_members =
      [(''contracts_1.csv'', Inr ex_contracts), (''contracts_2.csv'', Inr ex_contracts_2)]"
    by (simp add: ex_members_def endswith_def)
  let ?r = "ex_archive\<lparr>zip_members := Inr [(''README.txt'', Inr ex_doge)]\<rparr>"
  have k1: "requests_get (\<lambda>url. Inr ?r) download_url = Inr ?r"
    by (simp add: requests_get_def)
  have k2: "raise_for_status ?r = Inr ()"
    by (simp add: raise_for_status_def ex_archive_def)
  have k3: "zip_members ?r = Inr [(''README.txt'', Inr ex_doge)]"
    by simp
  have n: "\<forall>m\<in>set [(''README.txt'', Inr ex_doge)]. \<not> endswith (fst m) ''.csv''"
    by (simp add: endswith_def)
  have s: "fetch_usaspending_data ex_world ''a.zip'' =
       Inr ([Downloading ''a.zip'', Extracting ''contracts_1.csv'', Extracting ''broken.csv'',
             ErrorReadingCsv ''broken.csv'' OtherException, Extracting ''contracts_2.csv''],
            [ex_contracts, ex_contracts_2])"
    using csv_suffix_filter [OF h1 h2 h3, of "''a.zip''", THEN conjunct1] by (simp add: f g)
  have a: "fetch_usaspending_data ex_world ''a.zip'' =
       fetch_usaspending_data
         (ex_world(download_url := Inr (ex_archive\<lparr>zip_members :=
            Inr [(''contracts_1.csv'', Inr ex_contracts), (''broken.csv'', Inl OtherException),
                 (''contracts_2.csv'', Inr ex_contracts_2)]\<rparr>)))
         ''a.zip''"
    using csv_suffix_filter [OF h1 h2 h3, of "''a.zip''", THEN conjunct2, THEN conjunct1]
    unfolding f .
  have b: "fetch_usaspending_data (\<lambda>url. Inr ?r) ''a.zip''
       = Inr ([Downloading ''a.zip'', NoCsvFound ''a.zip''], [])"
    using csv_suffix_filter [OF k1 k2 k3, of "''a.zip''", THEN conjunct2, THEN conjunct2] n
    by blast
  have n': "\<not> endswith ''README.txt'' ''.csv''"
    by (simp add: endswith_def)
  show ?thesis
    using h1 h2 h3 n' s a b by blast
qed

section \<open>The feed fetcher\<close>

text \<open>
  Claim C6. The feed fetcher always returns a frame and lets no exception out; when the
  request fails, the status is an error, or decoding the JSON body into a frame fails, the
  frame returned is the empty one, with no row and no column.
\<close>

theorem fetch_doge_total:
  fixes w :: "'a world"
  shows "(\<exists>out df. fetch_doge_contracts w per_page = Inr (out, df)) \<and>
   (\<forall>e. requests_get w (doge_url per_page) = Inl e \<or>
        (\<exists>r. requests_get w (doge_url per_page) = Inr r \<and>
             (raise_for_status r = Inl e \<or>
              (raise_for_status r = Inr () \<and> json_frame r = Inl e))) \<longrightarrow>
      (\<exists>out. fetch_doge_contracts w per_page = Inr (out, empty_frame)) \<and>
      columns (empty_frame :: 'a DataFrame) = [] \<and> rows (empty_frame :: 'a DataFrame) = [])"
  by (auto simp: fetch_doge_contracts_def fetch_doge_try_def empty_frame_def Let_def
      split: sum.splits exn.splits)

theorem fetch_doge_total_witness:
  "requests_get ex_offline (doge_url 500) = Inl RequestException
   \<and> requests_get (\<lambda>url. Inr ex_archive) (doge_url 500) = Inr ex_archive
   \<and> raise_for_status ex_archive = Inr () \<and> json_frame ex_archive = Inl OtherException
   \<and> (\<exists>out. fetch_doge_contracts ex_offline 500 = Inr (out, empty_frame))
   \<and> (\<exists>out. fetch_doge_contracts (\<lambda>url. Inr ex_archive) 500 = Inr (out, empty_frame))"
proof -
  have h: "requests_get ex_offline (doge_url 500) = Inl RequestException"
    by (simp add: requests_get_def ex_offline_def)
  have k: "requests_get (\<lambda>url. Inr ex_archive) (doge_url 500) = Inr ex_archive
           \<and> raise_for_status ex_archive = Inr () \<and> json_frame ex_archive = Inl OtherException"
    by (simp add: requests_get_def raise_for_status_def ex_archive_def)
  show ?thesis
    using h k fetch_doge_total [of ex_offline 500]
      fetch_doge_total [of "\<lambda>url. Inr ex_archive" 500]
    by blast
qed

section \<open>The merger: key validation\<close>

text \<open>
  Claim C4. When the left key is not a column of the left frame, or the right key not a
  column of the right frame, \<open>merge_data\<close> returns the empty frame (no column, no row) at
  once: the only line printed is the one naming the missing key, the join is not computed,
  and the function returns a value, so nothing is raised.
\<close>

theorem merge_key_validation:
  assumes "left_on \<notin> set (columns df1) \<or> right_on \<notin> set (columns df2)"
  shows "merge_data df1 df2 left_on right_on =
           ([if left_on \<notin> set (columns df1) then KeyNotFoundFirst left_on
             else KeyNotFoundSecond right_on], empty_frame)
         \<and> columns (snd (merge_data df1 df2 left_on right_on)) = []
         \<and> rows (snd (merge_data df1 df2 left_on right_on)) = []"
  using assms by (auto simp: merge_data_def empty_frame_def)

theorem merge_key_validation_witness:
  "''award_id_piid'' \<notin> set (columns ex_doge)
   \<and> ''piid'' \<notin> set (columns ex_contracts)
   \<and> merge_data ex_doge ex_doge ''award_id_piid'' ''piid'' =
       ([KeyNotFoundFirst ''award_id_piid''], empty_frame)
   \<and> merge_data ex_contracts ex_contracts ''award_id_piid'' ''piid'' =
       ([KeyNotFoundSecond ''piid''], empty_frame)"
proof -
  have h1: "''award_id_piid'' \<notin> set (columns ex_doge) \<or> ''piid'' \<notin> set (columns ex_doge)"
    by (simp add: ex_doge_def)
  have h2: "''award_id_piid'' \<notin> set (columns ex_contracts)
            \<or> ''piid'' \<notin> set (columns ex_contracts)"
    by (simp add: ex_contracts_def)
  have c1: "''award_id_piid'' \<notin> set (columns ex_doge)" by (simp add: ex_doge_def)
  have c2: "\<not> ''award_id_piid'' \<notin> set (columns ex_contracts)" by (simp add: ex_contracts_def)
  have c3: "''piid'' \<notin> set (columns ex_contracts)" by (simp add: ex_contracts_def)
  show ?thesis
    using merge_key_validation [OF h1] merge_key_validation [OF h2] c1 c2 c3 by simp
qed

section \<open>The concatenator\<close>

lemma range_index_fst: "map fst (range_index rs) = [0..<length rs]"
  by (simp add: range_index_def)

lemma range_index_snd: "map snd (range_index rs) = rs"
  by (simp add: range_index_def)

lemma range_index_length: "length (range_index rs) = length rs"
  by (simp add: range_index_def)

lemma stacked_rows_length:
  "length (stacked_rows cols dfs) = sum_list (map len dfs)"
  by (induction dfs) (simp_all add: stacked_rows_def len_def cells_def)

lemma cell_at_map:
  assumes "c \<in> set cols"
  shows "cell_at cols (map f cols) c = f c"
proof -
  have "zip cols (map f cols) = map (\<lambda>x. (x, f x)) cols"
    by (induction cols) simp_all
  then have "map_of (zip cols (map f cols)) c = Some (f c)"
    using assms by (simp add: map_of_map_restrict)
  then show ?thesis by (simp add: cell_at_def)
qed

lemma union_columns_set: "set (union_columns dfs) = (\<Union>d\<in>set dfs. set (columns d))"
  by (simp add: union_columns_def)

text \<open>
  Claim C7. On a non-empty list of frames \<^verbatim>\<open>pd.concat(..., ignore_index=True)\<close> returns a
  frame whose number of rows is the sum of the numbers of rows of the frames, whose index is
  \<open>0, ..., N - 1\<close>, and whose rows are the rows of the frames, in order, each moved to the
  union of the columns: under every label of its own frame a row keeps its cell.
\<close>

theorem concat_row_count:
  assumes "dfs \<noteq> []"
  shows "\<exists>df. pd_concat dfs = Inr df
           \<and> len df = sum_list (map len dfs)
           \<and> index df = [0..<len df]
           \<and> cells df =
               concat (map (\<lambda>d. map (reindex_row (columns df) (columns d)) (cells d)) dfs)
           \<and> (\<forall>d\<in>set dfs. set (columns d) \<subseteq> set (columns df)
                \<and> (\<forall>r. \<forall>c\<in>set (columns d).
                      cell_at (columns df) (reindex_row (columns df) (columns d) r) c
                        = cell_at (columns d) r c))"
proof -
  let ?cols = "union_columns dfs"
  let ?df = "\<lparr>columns = ?cols, rows = range_index (stacked_rows ?cols dfs)\<rparr>"
  have 1: "pd_concat dfs = Inr ?df"
    using assms by (simp add: pd_concat_def Let_def)
  have 2: "len ?df = sum_list (map len dfs)"
    by (simp add: len_def range_index_length stacked_rows_length)
  have 3: "index ?df = [0..<len ?df]"
    by (simp add: index_def len_def range_index_fst range_index_length)
  have 4: "cells ?df =
      concat (map (\<lambda>d. map (reindex_row (columns ?df) (columns d)) (cells d)) dfs)"
    by (simp add: cells_def range_index_snd stacked_rows_def)
  have 5: "\<forall>d\<in>set dfs. set (columns d) \<subseteq> set (columns ?df)
                \<and> (\<forall>r. \<forall>c\<in>set (columns d).
                      cell_at (columns ?df) (reindex_row (columns ?df) (columns d) r) c
                        = cell_at (columns d) r c)"
  proof (intro ballI conjI allI)
    fix d assume d: "d \<in> set dfs"
    show sub: "set (columns d) \<subseteq> set (columns ?df)"
      using d by (auto simp: union_columns_set)
    fix r c assume "c \<in> set (columns d)"
    with sub have "c \<in> set ?cols" by auto
    then show "cell_at (columns ?df) (reindex_row (columns ?df) (columns d) r) c
                        = cell_at (columns d) r c"
      by (simp add: reindex_row_def cell_at_map)
  qed
  from 1 2 3 4 5 show ?thesis by blast
qed

theorem concat_row_count_witness:
  "[ex_contracts, ex_contracts_2] \<noteq> []
   \<and> len ex_contracts = 2 \<and> len ex_contracts_2 = 1
   \<and> (\<exists>df. pd_concat [ex_contracts, ex_contracts_2] = Inr df \<and> len df = 3
           \<and> index df = [0..<3])"
proof -
  have h: "[ex_contracts, ex_contracts_2] \<noteq> []" by simp
  have l: "len ex_contracts = 2 \<and> len ex_contracts_2 = 1"
    by (simp add: len_def ex_contracts_def ex_contracts_2_def)
  show ?thesis
    using h l concat_row_count [OF h] by auto
qed

section \<open>The main flow: when the file is written\<close>

lemma ex_world_archive:
  "fetch_usaspending_data ex_world usaspending_file_name =
     Inr ([Downloading usaspending_file_name, Extracting ''contracts_1.csv'',
           Extracting ''broken.csv'', ErrorReadingCsv ''broken.csv'' OtherException,
           Extracting ''contracts_2.csv''], [ex_contracts, ex_contracts_2])"
  by code_simp

lemma ex_no_feed_archive:
  "fetch_usaspending_data ex_no_feed usaspending_file_name =
     Inr ([Downloading usaspending_file_name, Extracting ''contracts_1.csv'',
           Extracting ''broken.csv'', ErrorReadingCsv ''broken.csv'' OtherException,
           Extracting ''contracts_2.csv''], [ex_contracts, ex_contracts_2])"
  by code_simp

lemma ex_world_feed:
  "fetch_doge_contracts ex_world 500 =
     Inr ([FetchingDoge (doge_url 500) 500, Retrieved 2], ex_doge)"
  by code_simp

lemma ex_no_feed_feed:
  "fetch_doge_contracts ex_no_feed 500 =
     Inr ([FetchingDoge (doge_url 500) 500, FailedFetchDoge RequestException], empty_frame)"
  by code_simp

lemma ex_world_concat: "pd_concat [ex_contracts, ex_contracts_2] = Inr ex_usaspending"
  by code_simp

lemma ex_world_merge:
  "ex_merged = snd (merge_data ex_usaspending ex_doge usaspending_merge_key doge_merge_key)"
  by code_simp

lemma ex_offline_archive:
  "fetch_usaspending_data ex_offline usaspending_file_name =
     Inr ([Downloading usaspending_file_name,
           FailedDownload usaspending_file_name RequestException], [])"
  by code_simp

lemma ex_offline_feed:
  "fetch_doge_contracts ex_offline 500 =
     Inr ([FetchingDoge (doge_url 500) 500, FailedFetchDoge RequestException], empty_frame)"
  by code_simp

text \<open>
  Claim C8. A run of \<open>main\<close> ends without an escaping exception. Name the list the archive
  fetcher returns, the concatenated frame, the feed frame and the merged frame. Then:
  an empty list ends the run with the line "No USAspending dataframes were loaded" and no
  file; an empty feed frame ends it with "Failed to load DOGE data" and no file; an empty
  merge result with both inputs non-empty ends it with the warning and no file; and a file
  is written exactly when the run reaches a non-empty merge result, and then it is the
  merged frame, under the fixed name, followed by the line "Saved".
\<close>

theorem main_terminal_behaviour:
  assumes "fetch_usaspending_data w usaspending_file_name = Inr (out1, dfs)"
    and "fetch_doge_contracts w 500 = Inr (out3, df_doge)"
    and "dfs \<noteq> [] \<longrightarrow> pd_concat dfs = Inr df_usaspending"
    and "merged_df =
           snd (merge_data df_usaspending df_doge usaspending_merge_key doge_merge_key)"
  shows "\<exists>out file. main w = Inr (out, file)
      \<and> (dfs = [] \<longrightarrow> file = None \<and> last out = NoDataframesLoaded)
      \<and> (dfs \<noteq> [] \<and> is_empty df_doge \<longrightarrow> file = None \<and> last out = FailedLoadDoge)
      \<and> (dfs \<noteq> [] \<and> \<not> is_empty df_doge \<and> \<not> is_empty df_usaspending \<and> is_empty merged_df
            \<longrightarrow> file = None \<and> last out = MergeEmptyWarning)
      \<and> (file \<noteq> None \<longleftrightarrow> dfs \<noteq> [] \<and> \<not> is_empty df_doge \<and> \<not> is_empty merged_df)
      \<and> (file \<noteq> None \<longrightarrow> file = Some (to_csv merged_df output_filename)
            \<and> last out = Saved output_filename)"
proof (cases "dfs = []")
  case True
  then show ?thesis using assms(1) by (simp add: main_def)
next
  case False
  then have c: "pd_concat dfs = Inr df_usaspending" using assms(3) by simp
  obtain out4 where m:
    "merge_data df_usaspending df_doge usaspending_merge_key doge_merge_key = (out4, merged_df)"
    using assms(4)
    by (cases "merge_data df_usaspending df_doge usaspending_merge_key doge_merge_key") simp
  show ?thesis
    using False assms(1,2) c m by (simp add: main_def Let_def to_csv_def)
qed

theorem main_terminal_behaviour_witness:
  "(\<exists>out. main ex_world = Inr (out, Some (to_csv ex_merged output_filename))
          \<and> last out = Saved output_filename)
   \<and> (\<exists>out. main ex_offline = Inr (out, None) \<and> last out = NoDataframesLoaded)
   \<and> (\<exists>out. main ex_no_feed = Inr (out, None) \<and> last out = FailedLoadDoge)"
proof -
  have ne: "\<not> is_empty ex_doge" "\<not> is_empty ex_merged"
    by (simp_all add: is_empty_def ex_doge_def ex_merged_def)
  have c: "[ex_contracts, ex_contracts_2] \<noteq> [] \<longrightarrow>
           pd_concat [ex_contracts, ex_contracts_2] = Inr ex_usaspending"
    by (simp add: ex_world_concat)
  have a: "\<exists>out. main ex_world = Inr (out, Some (to_csv ex_merged output_filename))
          \<and> last out = Saved output_filename"
    using main_terminal_behaviour [OF ex_world_archive ex_world_feed c ex_world_merge] ne
    by auto
  have t: "([]::string DataFrame list) \<noteq> [] \<longrightarrow>
           pd_concat [] = Inr (empty_frame :: string DataFrame)"
    by simp
  have b: "\<exists>out. main ex_offline = Inr (out, None) \<and> last out = NoDataframesLoaded"
    using main_terminal_behaviour [OF ex_offline_archive ex_offline_feed t refl]
    by auto
  have e: "is_empty (empty_frame :: string DataFrame)"
    by (simp add: is_empty_def empty_frame_def)
  have d: "\<exists>out. main ex_no_feed = Inr (out, None) \<and> last out = FailedLoadDoge"
    using main_terminal_behaviour [OF ex_no_feed_archive ex_no_feed_feed c refl] e
    by auto
  show ?thesis using a b d by blast
qed

section \<open>The merger: the outer join\<close>

subsection \<open>The join indexers\<close>

lemma set_left_matches: "set (left_matches rkeys k) = {j. j < length rkeys \<and> rkeys ! j = k}"
  by (auto simp: left_matches_def)

lemma left_matches_empty: "left_matches rkeys k = [] \<longleftrightarrow> k \<notin> set rkeys"
  by (auto simp: left_matches_def filter_empty_conv in_set_conv_nth)

lemma distinct_left_matches: "distinct (left_matches rkeys k)"
  by (simp add: left_matches_def)

lemma set_left_pairs:
  "set (left_pairs rkeys i k) =
     (if k \<in> set rkeys then {(Some i, Some j) | j. j < length rkeys \<and> rkeys ! j = k}
      else {(Some i, None)})"
  by (auto simp: left_pairs_def Let_def left_matches_empty set_left_matches)

lemma left_pairs_fst: "p \<in> set (left_pairs rkeys i k) \<Longrightarrow> fst p = Some i"
  by (auto simp: set_left_pairs split: if_splits)

lemma left_pairs_nonempty: "left_pairs rkeys i k \<noteq> []"
  by (simp add: left_pairs_def Let_def)

lemma length_left_pairs:
  "length (left_pairs rkeys i k) = max 1 (length (left_matches rkeys k))"
  by (cases "left_matches rkeys k") (simp_all add: left_pairs_def Let_def)

lemma filter_left_pairs:
  "filter (\<lambda>p. fst p = Some i) (left_pairs rkeys i' k) = (if i' = i then left_pairs rkeys i k else [])"
  by (auto simp: filter_empty_conv dest: left_pairs_fst intro!: filter_True)

lemma filter_left_block:
  "filter (\<lambda>p. fst p = Some i) (concat (map (\<lambda>i'. left_pairs rkeys i' (lkeys ! i')) [0..<n])) =
     (if i < n then left_pairs rkeys i (lkeys ! i) else [])"
  by (induction n) (auto simp: filter_left_pairs)

lemma filter_fst_indexers:
  "filter (\<lambda>p. fst p = Some i) (outer_indexers lkeys rkeys) =
     (if i < length lkeys then left_pairs rkeys i (lkeys ! i) else [])"
  by (simp add: outer_indexers_def filter_left_block filter_map o_def)

lemma set_right_only:
  "set (right_only lkeys rkeys) = {j. j < length rkeys \<and> rkeys ! j \<notin> set lkeys}"
  by (auto simp: right_only_def)



lemma in_left_pairs:
  "(a, b) \<in> set (left_pairs rkeys i k) \<longleftrightarrow>
     a = Some i \<and> ((\<exists>j. b = Some j \<and> j < length rkeys \<and> rkeys ! j = k)
                    \<or> (b = None \<and> k \<notin> set rkeys))"
  unfolding set_left_pairs by (auto simp: in_set_conv_nth)

lemma in_outer_indexers:
  "(a, b) \<in> set (outer_indexers lkeys rkeys) \<longleftrightarrow>
     (\<exists>i<length lkeys. a = Some i \<and>
        ((\<exists>j. b = Some j \<and> j < length rkeys \<and> rkeys ! j = lkeys ! i)
         \<or> (b = None \<and> lkeys ! i \<notin> set rkeys)))
     \<or> (a = None \<and> (\<exists>j. b = Some j \<and> j < length rkeys \<and> rkeys ! j \<notin> set lkeys))"
proof -
  have blk: "(a, b) \<in> set (concat (map (\<lambda>i. left_pairs rkeys i (lkeys ! i)) [0..<length lkeys]))
      \<longleftrightarrow> (\<exists>i<length lkeys. (a, b) \<in> set (left_pairs rkeys i (lkeys ! i)))"
    by auto
  have ro: "(a, b) \<in> set (map (\<lambda>j. (None, Some j)) (right_only lkeys rkeys)) \<longleftrightarrow>
       a = None \<and> (\<exists>j. b = Some j \<and> j < length rkeys \<and> rkeys ! j \<notin> set lkeys)"
    by (auto simp: set_right_only)
  show ?thesis
    unfolding outer_indexers_def set_append Un_iff blk ro in_left_pairs ..
qed




lemma distinct_left_pairs: "distinct (left_pairs rkeys i k)"
  by (simp add: left_pairs_def Let_def distinct_map distinct_left_matches inj_on_def)

lemma distinct_left_block:
  "distinct (concat (map (\<lambda>i'. left_pairs rkeys i' (lkeys ! i')) [0..<n]))"
proof (induction n)
  case 0
  show ?case by simp
next
  case (Suc n)
  have "set (concat (map (\<lambda>i'. left_pairs rkeys i' (lkeys ! i')) [0..<n]))
          \<inter> set (left_pairs rkeys n (lkeys ! n)) = {}"
  proof (rule ccontr)
    assume "\<not> ?thesis"
    then obtain p i' where "i' < n" "p \<in> set (left_pairs rkeys i' (lkeys ! i'))"
      "p \<in> set (left_pairs rkeys n (lkeys ! n))" by auto
    then have "fst p = Some i'" "fst p = Some n" by (auto dest: left_pairs_fst)
    with \<open>i' < n\<close> show False by simp
  qed
  with Suc show ?case by (simp add: distinct_left_pairs)
qed

lemma distinct_outer_indexers: "distinct (outer_indexers lkeys rkeys)"
proof -
  have a: "distinct (map (\<lambda>j. (None :: nat option, Some j)) (right_only lkeys rkeys))"
    by (simp add: distinct_map right_only_def inj_on_def)
  have b1: "\<And>p. p \<in> set (concat (map (\<lambda>i. left_pairs rkeys i (lkeys ! i)) [0..<length lkeys]))
             \<Longrightarrow> fst p \<noteq> None"
    by (auto dest: left_pairs_fst)
  have b2: "\<And>p. p \<in> set (map (\<lambda>j. (None :: nat option, Some j)) (right_only lkeys rkeys))
             \<Longrightarrow> fst p = None"
    by auto
  have b: "set (concat (map (\<lambda>i. left_pairs rkeys i (lkeys ! i)) [0..<length lkeys]))
           \<inter> set (map (\<lambda>j. (None, Some j)) (right_only lkeys rkeys)) = {}"
    using b1 b2 by blast
  show ?thesis
    unfolding outer_indexers_def distinct_append using a b distinct_left_block by blast
qed

lemma set_outer_indexers_swap:
  "set (outer_indexers rkeys lkeys) = prod.swap ` set (outer_indexers lkeys rkeys)"
proof (rule set_eqI)
  fix p :: "nat option \<times> nat option"
  obtain a b where p: "p = (a, b)" by (cases p)
  have k1: "\<And>i. i < length lkeys \<Longrightarrow> (lkeys ! i \<notin> set rkeys) = (\<forall>j<length rkeys. rkeys ! j \<noteq> lkeys ! i)"
    by (auto simp: in_set_conv_nth)
  have k2: "\<And>j. j < length rkeys \<Longrightarrow> (rkeys ! j \<notin> set lkeys) = (\<forall>i<length lkeys. rkeys ! j \<noteq> lkeys ! i)"
    by (auto simp: in_set_conv_nth)
  have "p \<in> prod.swap ` set (outer_indexers lkeys rkeys) \<longleftrightarrow> (b, a) \<in> set (outer_indexers lkeys rkeys)"
    unfolding p by force
  also have "\<dots> \<longleftrightarrow> (a, b) \<in> set (outer_indexers rkeys lkeys)"
    unfolding in_outer_indexers using k1 k2 by (cases a; cases b) auto
  finally show "p \<in> set (outer_indexers rkeys lkeys) \<longleftrightarrow> p \<in> prod.swap ` set (outer_indexers lkeys rkeys)"
    unfolding p by simp
qed

lemma length_outer_indexers_swap:
  "length (outer_indexers rkeys lkeys) = length (outer_indexers lkeys rkeys)"
proof -
  have "length (outer_indexers rkeys lkeys) = card (set (outer_indexers rkeys lkeys))"
    by (simp add: distinct_card distinct_outer_indexers)
  also have "\<dots> = card (prod.swap ` set (outer_indexers lkeys rkeys))"
    by (subst set_outer_indexers_swap) (rule refl)
  also have "\<dots> = card (set (outer_indexers lkeys rkeys))"
    by (rule card_image) (auto simp: inj_on_def)
  also have "\<dots> = length (outer_indexers lkeys rkeys)"
    by (simp add: distinct_card distinct_outer_indexers)
  finally show ?thesis .
qed




lemma length_outer_indexers:
  "length (outer_indexers lkeys rkeys) =
     sum_list (map (\<lambda>i. length (left_pairs rkeys i (lkeys ! i))) [0..<length lkeys])
     + length (right_only lkeys rkeys)"
  by (simp add: outer_indexers_def length_concat o_def)

lemma sum_list_ge_length:
  "(\<And>x. x \<in> set xs \<Longrightarrow> 1 \<le> f x) \<Longrightarrow> length xs \<le> sum_list (map f xs)"
  for f :: "'a \<Rightarrow> nat"
proof (induction xs)
  case Nil
  show ?case by simp
next
  case (Cons x xs)
  have "1 \<le> f x" using Cons.prems by simp
  moreover have "length xs \<le> sum_list (map f xs)" using Cons by simp
  ultimately show ?case by simp
qed

lemma sum_list_all_one:
  "(\<And>x. x \<in> set xs \<Longrightarrow> f x = 1) \<Longrightarrow> sum_list (map f xs) = length xs"
  for f :: "'a \<Rightarrow> nat"
  by (induction xs) simp_all

lemma left_le_outer_indexers: "length lkeys \<le> length (outer_indexers lkeys rkeys)"
proof -
  have "length [0..<length lkeys]
        \<le> sum_list (map (\<lambda>i. length (left_pairs rkeys i (lkeys ! i))) [0..<length lkeys])"
    by (rule sum_list_ge_length) (simp add: length_left_pairs)
  then show ?thesis by (simp add: length_outer_indexers)
qed

lemma right_le_outer_indexers: "length rkeys \<le> length (outer_indexers lkeys rkeys)"
  using left_le_outer_indexers [of rkeys lkeys] by (simp add: length_outer_indexers_swap)

lemma length_filter_full:
  "length (filter P xs) = length xs \<longleftrightarrow> (\<forall>x\<in>set xs. P x)"
proof -
  have "length (filter P xs) = length xs \<longleftrightarrow> length (filter (\<lambda>x. \<not> P x) xs) = 0"
    using sum_length_filter_compl [of P xs] by arith
  also have "\<dots> \<longleftrightarrow> (\<forall>x\<in>set xs. P x)"
    by (simp add: filter_empty_conv)
  finally show ?thesis .
qed

lemma right_only_full:
  "length (right_only lkeys rkeys) = length rkeys \<longleftrightarrow> set lkeys \<inter> set rkeys = {}"
proof -
  have "length (right_only lkeys rkeys) = length rkeys
        \<longleftrightarrow> (\<forall>j\<in>set [0..<length rkeys]. rkeys ! j \<notin> set lkeys)"
    using length_filter_full [of "\<lambda>j. rkeys ! j \<notin> set lkeys" "[0..<length rkeys]"]
    by (simp add: right_only_def)
  also have "\<dots> \<longleftrightarrow> (\<forall>x\<in>set rkeys. x \<notin> set lkeys)"
    by (auto simp: all_set_conv_all_nth)
  also have "\<dots> \<longleftrightarrow> set lkeys \<inter> set rkeys = {}"
    by blast
  finally show ?thesis .
qed

lemma right_only_le: "length (right_only lkeys rkeys) \<le> length rkeys"
  using length_filter_le [of "\<lambda>j. rkeys ! j \<notin> set lkeys" "[0..<length rkeys]"]
  by (simp add: right_only_def)

lemma left_matches_distinct_le: "distinct rkeys \<Longrightarrow> length (left_matches rkeys k) \<le> 1"
proof -
  assume d: "distinct rkeys"
  have "\<And>j j'. j \<in> set (left_matches rkeys k) \<Longrightarrow> j' \<in> set (left_matches rkeys k) \<Longrightarrow> j = j'"
    using d by (auto simp: set_left_matches nth_eq_iff_index_eq)
  then have "card (set (left_matches rkeys k)) \<le> 1"
    by (metis card_le_Suc0_iff_eq List.finite_set One_nat_def)
  then show ?thesis
    by (simp add: distinct_card distinct_left_matches)
qed

lemma length_indexers_distinct_right:
  assumes "distinct rkeys"
  shows "length (outer_indexers lkeys rkeys) = length lkeys + length (right_only lkeys rkeys)"
proof -
  have "length (left_pairs rkeys i (lkeys ! i)) = 1" for i
    using left_matches_distinct_le [OF assms, of "lkeys ! i"]
    by (simp add: length_left_pairs max_def)
  then have "sum_list (map (\<lambda>i. length (left_pairs rkeys i (lkeys ! i))) [0..<length lkeys])
             = length [0..<length lkeys]"
    by (intro sum_list_all_one)
  then show ?thesis by (simp add: length_outer_indexers)
qed

lemma length_indexers_disjoint:
  assumes "set lkeys \<inter> set rkeys = {}"
  shows "length (outer_indexers lkeys rkeys) = length lkeys + length rkeys"
proof -
  have "left_matches rkeys (lkeys ! i) = []" if "i < length lkeys" for i
    using assms nth_mem [OF that] by (auto simp: left_matches_empty)
  then have "sum_list (map (\<lambda>i. length (left_pairs rkeys i (lkeys ! i))) [0..<length lkeys])
             = length [0..<length lkeys]"
    by (intro sum_list_all_one) (simp add: length_left_pairs)
  moreover have "length (right_only lkeys rkeys) = length rkeys"
    using assms by (simp add: right_only_full)
  ultimately show ?thesis by (simp add: length_outer_indexers)
qed

lemma bound_distinct_right:
  assumes "distinct rkeys"
  shows "length (outer_indexers lkeys rkeys) \<le> length lkeys + length rkeys
         \<and> (length (outer_indexers lkeys rkeys) = length lkeys + length rkeys
              \<longleftrightarrow> set lkeys \<inter> set rkeys = {})"
  using length_indexers_distinct_right [OF assms, of lkeys] right_only_le [of lkeys rkeys]
    right_only_full [of lkeys rkeys] by simp

lemma bound_distinct_left:
  assumes "distinct lkeys"
  shows "length (outer_indexers lkeys rkeys) \<le> length lkeys + length rkeys
         \<and> (length (outer_indexers lkeys rkeys) = length lkeys + length rkeys
              \<longleftrightarrow> set lkeys \<inter> set rkeys = {})"
proof -
  have "set rkeys \<inter> set lkeys = {} \<longleftrightarrow> set lkeys \<inter> set rkeys = {}" by blast
  then show ?thesis
    using bound_distinct_right [OF assms, of rkeys] length_outer_indexers_swap [of rkeys lkeys]
    by (simp add: add.commute)
qed




lemma merge_data_cells:
  assumes "left_on \<in> set (columns df1)" and "right_on \<in> set (columns df2)"
  shows "cells (snd (merge_data df1 df2 left_on right_on)) =
           map (merged_row df1 df2 left_on right_on)
             (outer_indexers (key_column df1 left_on) (key_column df2 right_on))"
  using assms by (simp add: merge_data_def pd_merge_outer_def cells_def range_index_snd Let_def)

lemma merge_data_len:
  assumes "left_on \<in> set (columns df1)" and "right_on \<in> set (columns df2)"
  shows "len (snd (merge_data df1 df2 left_on right_on)) =
           length (outer_indexers (key_column df1 left_on) (key_column df2 right_on))"
  using assms by (simp add: merge_data_def pd_merge_outer_def len_def range_index_length Let_def)

lemma length_key_column: "length (key_column df k) = len df"
  by (simp add: key_column_def cells_def len_def)

lemma length_cells: "length (cells df) = len df"
  by (simp add: cells_def len_def)


lemma wf_row_length:
  "wf_frame df \<Longrightarrow> i < len df \<Longrightarrow> length (cells df ! i) = length (columns df)"
  by (simp add: wf_frame_def list_all_length length_cells)

lemma cell_at_append:
  assumes "length xs = length cols"
  shows "cell_at cols (xs @ ys) c = cell_at cols xs c"
proof -
  have "zip cols (xs @ ys) = zip cols xs"
    using assms by (simp add: zip_append2)
  then show ?thesis by (simp only: cell_at_def)
qed

lemma cell_at_replicate: "cell_at cols (replicate n None) c = None"
proof -
  have "v = None" if "map_of (zip cols (replicate n None)) c = Some v" for v :: "'a option"
  proof -
    from that have "(c, v) \<in> set (zip cols (replicate n None))" by (rule map_of_SomeD)
    then have "v \<in> set (replicate n None)" by (rule set_zip_rightD)
    then show ?thesis by simp
  qed
  then show ?thesis
    unfolding cell_at_def by (auto split: option.splits)
qed

lemma length_drop_label:
  "length r = length cols \<Longrightarrow> length (drop_label k cols r) = length (filter (\<lambda>c. c \<noteq> k) cols)"
proof (induction cols arbitrary: r)
  case Nil
  then show ?case by (simp add: drop_label_def)
next
  case (Cons c cols)
  then obtain v r' where r: "r = v # r'" "length r' = length cols" by (cases r) auto
  with Cons.IH [of r'] show ?case by (simp add: drop_label_def)
qed

lemma length_left_part:
  assumes "wf_frame df1"
    and "case fst p of Some i \<Rightarrow> i < len df1 | None \<Rightarrow> True"
  shows "length (left_part df1 df2 lk rk p) = length (columns df1)"
  using assms by (cases p) (auto simp: left_part_def wf_row_length split: option.splits)

lemma length_right_part:
  assumes "wf_frame df2"
    and "case snd p of Some j \<Rightarrow> j < len df2 | None \<Rightarrow> True"
  shows "length (right_part df2 lk rk p) = length (right_labels (columns df2) lk rk)"
  using assms
  by (cases p) (auto simp: right_part_def right_labels_def wf_row_length length_drop_label
      split: option.splits)

lemma indexers_in_range:
  assumes "p \<in> set (outer_indexers (key_column df1 lk) (key_column df2 rk))"
  shows "(case fst p of Some i \<Rightarrow> i < len df1 | None \<Rightarrow> True)
       \<and> (case snd p of Some j \<Rightarrow> j < len df2 | None \<Rightarrow> True)"
proof -
  obtain a b where p: "p = (a, b)" by (cases p)
  show ?thesis
    using assms unfolding p in_outer_indexers length_key_column by auto
qed

subsection \<open>The number of rows\<close>

lemma length_filter_nth:
  "length (filter (\<lambda>j. P (xs ! j)) [0..<length xs]) = length (filter P xs)"
proof -
  have "filter P xs = filter P (map (nth xs) [0..<length xs])"
    by (simp add: map_nth)
  also have "\<dots> = map (nth xs) (filter (P \<circ> nth xs) [0..<length xs])"
    by (rule filter_map)
  finally have "length (filter P xs) = length (filter (P \<circ> nth xs) [0..<length xs])"
    by simp
  then show ?thesis by (simp add: o_def)
qed

lemma length_left_matches: "length (left_matches rkeys k) = count_list rkeys k"
proof -
  have "left_matches rkeys k = filter (\<lambda>j. k = rkeys ! j) [0..<length rkeys]"
    unfolding left_matches_def by (rule filter_cong) auto
  then have "length (left_matches rkeys k) = length (filter (\<lambda>y. k = y) rkeys)"
    using length_filter_nth [of "\<lambda>y. k = y" rkeys] by simp
  then show ?thesis by (simp add: count_list_eq_length_filter)
qed

lemma length_right_only:
  "length (right_only lkeys rkeys) = length (filter (\<lambda>y. y \<notin> set lkeys) rkeys)"
  unfolding right_only_def by (rule length_filter_nth)

lemma sum_list_nth_map:
  "sum_list (map (\<lambda>i. g (xs ! i)) [0..<length xs]) = sum_list (map g xs)"
proof -
  have "map (\<lambda>i. g (xs ! i)) [0..<length xs] = map g (map (nth xs) [0..<length xs])"
    by simp
  then show ?thesis by (simp only: map_nth)
qed

lemma length_outer_indexers_values:
  "length (outer_indexers lkeys rkeys) =
     sum_list (map (\<lambda>x. max 1 (count_list rkeys x)) lkeys)
     + length (filter (\<lambda>y. y \<notin> set lkeys) rkeys)"
proof -
  have "sum_list (map (\<lambda>i. length (left_pairs rkeys i (lkeys ! i))) [0..<length lkeys])
        = sum_list (map (\<lambda>i. max 1 (count_list rkeys (lkeys ! i))) [0..<length lkeys])"
    by (simp add: length_left_pairs length_left_matches)
  also have "\<dots> = sum_list (map (\<lambda>x. max 1 (count_list rkeys x)) lkeys)"
    by (rule sum_list_nth_map)
  finally show ?thesis
    by (simp add: length_outer_indexers length_right_only)
qed

lemma filter_not_in_Cons:
  "length (filter (\<lambda>y. y \<notin> set lkeys) rkeys) =
     length (filter (\<lambda>y. y \<notin> set (x # lkeys)) rkeys)
     + (if x \<in> set lkeys then 0 else count_list rkeys x)"
  by (induction rkeys) auto



lemma values_bound:
  assumes "\<forall>k. count_list lkeys k \<le> 1 \<or> count_list rkeys k \<le> 1"
  shows "sum_list (map (\<lambda>x. max 1 (count_list rkeys x)) lkeys)
           + length (filter (\<lambda>y. y \<notin> set lkeys) rkeys) \<le> length lkeys + length rkeys
       \<and> (sum_list (map (\<lambda>x. max 1 (count_list rkeys x)) lkeys)
           + length (filter (\<lambda>y. y \<notin> set lkeys) rkeys) = length lkeys + length rkeys
          \<longleftrightarrow> set lkeys \<inter> set rkeys = {})"
  using assms
proof (induction lkeys)
  case Nil
  show ?case by simp
next
  case (Cons x lkeys)
  define S where "S ks = sum_list (map (\<lambda>x. max 1 (count_list rkeys x)) ks)
                 + length (filter (\<lambda>y. y \<notin> set ks) rkeys)" for ks
  define c where "c = count_list rkeys x"
  have H: "count_list (x # lkeys) k \<le> 1 \<or> count_list rkeys k \<le> 1" for k
    using Cons.prems by blast
  have "count_list lkeys k \<le> 1 \<or> count_list rkeys k \<le> 1" for k
    using H [of k] by (auto split: if_splits)
  then have IH: "S lkeys \<le> length lkeys + length rkeys"
    "S lkeys = length lkeys + length rkeys \<longleftrightarrow> set lkeys \<inter> set rkeys = {}"
    unfolding S_def using Cons.IH by blast+
  have step: "S lkeys + max 1 c = S (x # lkeys) + (if x \<in> set lkeys then 0 else c)"
    unfolding S_def c_def using filter_not_in_Cons [of lkeys rkeys x] by simp
  have zero: "c = 0 \<longleftrightarrow> x \<notin> set rkeys"
    unfolding c_def by (simp add: count_list_0_iff)
  have goal: "S (x # lkeys) \<le> length (x # lkeys) + length rkeys
       \<and> (S (x # lkeys) = length (x # lkeys) + length rkeys
          \<longleftrightarrow> set (x # lkeys) \<inter> set rkeys = {})"
  proof (cases "x \<in> set lkeys")
    case True
    then have "count_list lkeys x \<noteq> 0"
      by (simp add: count_list_0_iff)
    then have "\<not> count_list (x # lkeys) x \<le> 1" by simp
    with H [of x] have c1: "c \<le> 1" unfolding c_def by blast
    with step True have eq: "S (x # lkeys) = S lkeys + 1" by (simp add: max_def)
    have "set (x # lkeys) \<inter> set rkeys = {} \<longleftrightarrow> set lkeys \<inter> set rkeys = {}"
      using True by auto
    with eq IH show ?thesis by simp
  next
    case False
    with step have eq: "S (x # lkeys) + c = S lkeys + max 1 c" by simp
    show ?thesis
    proof (cases "c = 0")
      case True
      with eq have e: "S (x # lkeys) = S lkeys + 1" by simp
      from True zero have "x \<notin> set rkeys" by simp
      then have "set (x # lkeys) \<inter> set rkeys = {} \<longleftrightarrow> set lkeys \<inter> set rkeys = {}"
        by auto
      with e IH show ?thesis by simp
    next
      case nz: False
      with eq have e: "S (x # lkeys) = S lkeys" by (simp add: max_def)
      from nz zero have "x \<in> set rkeys" by simp
      then have "set (x # lkeys) \<inter> set rkeys \<noteq> {}" by auto
      with e IH(1) show ?thesis by simp
    qed
  qed
  then show ?case unfolding S_def .
qed

lemma bound_no_double_repeat:
  assumes "\<forall>k. count_list lkeys k \<le> 1 \<or> count_list rkeys k \<le> 1"
  shows "length (outer_indexers lkeys rkeys) \<le> length lkeys + length rkeys
         \<and> (length (outer_indexers lkeys rkeys) = length lkeys + length rkeys
              \<longleftrightarrow> set lkeys \<inter> set rkeys = {})"
  unfolding length_outer_indexers_values using assms by (rule values_bound)

text \<open>
  Claim C2, as the code has it. Keys are compared as \<^verbatim>\<open>pd.merge\<close> compares them, so a
  missing key equals a missing key. When both keys are columns, the merged frame has at
  least \<open>max\<close> of the two row counts; it has exactly their sum when no left key equals a
  right key; and when no key value occurs more than once in both frames, it has at most
  their sum, and exactly their sum only when no left key equals a right key. (With a key
  repeated on both sides the pairs of matching rows multiply and the sum is no bound: see
  the counterexample, 2 and 3 rows giving 6.)
\<close>

theorem merge_row_count_bound:
  assumes "left_on \<in> set (columns df1)" and "right_on \<in> set (columns df2)"
  shows "max (len df1) (len df2) \<le> len (snd (merge_data df1 df2 left_on right_on))
     \<and> (set (key_column df1 left_on) \<inter> set (key_column df2 right_on) = {} \<longrightarrow>
          len (snd (merge_data df1 df2 left_on right_on)) = len df1 + len df2)
     \<and> ((\<forall>k. count_list (key_column df1 left_on) k \<le> 1
              \<or> count_list (key_column df2 right_on) k \<le> 1) \<longrightarrow>
          len (snd (merge_data df1 df2 left_on right_on)) \<le> len df1 + len df2
          \<and> (len (snd (merge_data df1 df2 left_on right_on)) = len df1 + len df2
               \<longleftrightarrow> set (key_column df1 left_on) \<inter> set (key_column df2 right_on) = {}))"
proof -
  let ?lk = "key_column df1 left_on" and ?rk = "key_column df2 right_on"
  have n: "len (snd (merge_data df1 df2 left_on right_on)) = length (outer_indexers ?lk ?rk)"
    using assms by (rule merge_data_len)
  have l: "length ?lk = len df1" and r: "length ?rk = len df2"
    by (rule length_key_column)+
  have 1: "max (len df1) (len df2) \<le> length (outer_indexers ?lk ?rk)"
    using left_le_outer_indexers [of ?lk ?rk] right_le_outer_indexers [of ?rk ?lk]
    by (simp add: l r)
  have 2: "set ?lk \<inter> set ?rk = {} \<longrightarrow> length (outer_indexers ?lk ?rk) = len df1 + len df2"
    using length_indexers_disjoint [of ?lk ?rk] by (simp add: l r)
  have 3: "(\<forall>k. count_list ?lk k \<le> 1 \<or> count_list ?rk k \<le> 1) \<longrightarrow>
          length (outer_indexers ?lk ?rk) \<le> len df1 + len df2
          \<and> (length (outer_indexers ?lk ?rk) = len df1 + len df2
               \<longleftrightarrow> set ?lk \<inter> set ?rk = {})"
    using bound_no_double_repeat [of ?lk ?rk] by (simp add: l r)
  show ?thesis
    unfolding n using 1 2 3 by blast
qed

theorem merge_row_count_bound_counterexample:
  "\<not> len (snd (merge_data ex_dup_left ex_dup_right ''award_id_piid'' ''piid''))
      \<le> len ex_dup_left + len ex_dup_right"
  by code_simp

theorem merge_row_count_bound_witness:
  "''award_id_piid'' \<in> set (columns ex_rep_left) \<and> ''piid'' \<in> set (columns ex_rep_right)
   \<and> (\<forall>k. count_list (key_column ex_rep_left ''award_id_piid'') k \<le> 1
          \<or> count_list (key_column ex_rep_right ''piid'') k \<le> 1)
   \<and> set (key_column ex_rep_left ''award_id_piid'') \<inter> set (key_column ex_rep_right ''piid'')
        \<noteq> {}
   \<and> max (len ex_rep_left) (len ex_rep_right)
        \<le> len (snd (merge_data ex_rep_left ex_rep_right ''award_id_piid'' ''piid''))
   \<and> len (snd (merge_data ex_rep_left ex_rep_right ''award_id_piid'' ''piid''))
        < len ex_rep_left + len ex_rep_right"
proof -
  have h1: "''award_id_piid'' \<in> set (columns ex_rep_left)"
    by (simp add: ex_rep_left_def)
  have h2: "''piid'' \<in> set (columns ex_rep_right)"
    by (simp add: ex_rep_right_def)
  have kl: "key_column ex_rep_left ''award_id_piid'' = [Some ''P1'', Some ''P1'', Some ''P2'']"
    by code_simp
  have kr: "key_column ex_rep_right ''piid'' = [Some ''P1'', Some ''P2'', Some ''P2'']"
    by code_simp
  have d: "\<forall>k. count_list (key_column ex_rep_left ''award_id_piid'') k \<le> 1
              \<or> count_list (key_column ex_rep_right ''piid'') k \<le> 1"
    unfolding kl kr by auto
  have m: "set (key_column ex_rep_left ''award_id_piid'') \<inter> set (key_column ex_rep_right ''piid'')
             \<noteq> {}"
    unfolding kl kr by simp
  show ?thesis
    using h1 h2 d m merge_row_count_bound [OF h1 h2] by auto
qed

subsection \<open>The rows of the merged frame\<close>



lemma merged_row_split:
  assumes "wf_frame df1"
    and "case fst p of Some i \<Rightarrow> i < len df1 | None \<Rightarrow> True"
  shows "take (length (columns df1)) (merged_row df1 df2 lk rk p) = left_part df1 df2 lk rk p"
    and "drop (length (columns df1)) (merged_row df1 df2 lk rk p) = right_part df2 lk rk p"
    and "cell_at (columns df1) (merged_row df1 df2 lk rk p) c
           = cell_at (columns df1) (left_part df1 df2 lk rk p) c"
  using length_left_part [OF assms, of df2 lk rk]
  by (simp_all add: merged_row_def cell_at_append)

lemma left_part_Some: "left_part df1 df2 lk rk (Some i, b) = cells df1 ! i"
  by (simp add: left_part_def)

lemma right_part_None: "set (right_part df2 lk rk (a, None)) \<subseteq> {None}"
  by (auto simp: right_part_def)

lemma right_part_Some:
  "right_part df2 lk rk (a, Some j) =
     (if lk = rk then drop_label rk (columns df2) (cells df2 ! j) else cells df2 ! j)"
  by (simp add: right_part_def)

lemma left_part_None_cell:
  assumes "c \<in> set (columns df1)"
  shows "cell_at (columns df1) (left_part df1 df2 lk rk (None, Some j)) c =
           (if lk = rk \<and> c = lk then key_column df2 rk ! j else None)"
proof (cases "lk = rk")
  case True
  have "cell_at (columns df1)
          (map (\<lambda>c. if c = lk then key_column df2 rk ! j else None) (columns df1)) c
        = (if c = lk then key_column df2 rk ! j else None)"
    using assms by (rule cell_at_map)
  with True show ?thesis by (simp add: left_part_def)
next
  case False
  then show ?thesis by (simp add: left_part_def cell_at_replicate)
qed

lemma filter_eq_upt:
  "filter (\<lambda>j'. j' = j) (filter Q [0..<n]) = (if j < n \<and> Q j then [j] else [])"
  by (induction n) auto

lemma filter_snd_right_block:
  "filter (\<lambda>p. snd p = Some j) (map (\<lambda>j'. (None :: nat option, Some j')) (right_only lkeys rkeys))
     = (if j < length rkeys \<and> rkeys ! j \<notin> set lkeys then [(None, Some j)] else [])"
proof -
  have "filter (\<lambda>p. snd p = Some j) (map (\<lambda>j'. (None :: nat option, Some j')) (right_only lkeys rkeys))
        = map (\<lambda>j'. (None, Some j')) (filter (\<lambda>j'. j' = j) (right_only lkeys rkeys))"
    by (simp add: filter_map o_def)
  also have "filter (\<lambda>j'. j' = j) (right_only lkeys rkeys)
        = (if j < length rkeys \<and> rkeys ! j \<notin> set lkeys then [j] else [])"
    unfolding right_only_def by (rule filter_eq_upt)
  finally show ?thesis by simp
qed

lemma filter_snd_left_block:
  assumes "rkeys ! j \<notin> set lkeys"
  shows "filter (\<lambda>p. snd p = Some j)
           (concat (map (\<lambda>i. left_pairs rkeys i (lkeys ! i)) [0..<length lkeys])) = []"
proof -
  have "snd p \<noteq> Some j"
    if "p \<in> set (concat (map (\<lambda>i. left_pairs rkeys i (lkeys ! i)) [0..<length lkeys]))" for p
  proof -
    from that obtain i where i: "i < length lkeys" "p \<in> set (left_pairs rkeys i (lkeys ! i))"
      by auto
    obtain a b where ab: "p = (a, b)" by (cases p)
    show ?thesis
    proof
      assume "snd p = Some j"
      with ab i(2) have "(a, Some j) \<in> set (left_pairs rkeys i (lkeys ! i))" by simp
      then have "rkeys ! j = lkeys ! i" unfolding in_left_pairs by blast
      with assms nth_mem [OF i(1)] show False by simp
    qed
  qed
  then show ?thesis unfolding filter_empty_conv by blast
qed

lemma filter_snd_unmatched:
  assumes "j < length rkeys" and "rkeys ! j \<notin> set lkeys"
  shows "filter (\<lambda>p. snd p = Some j) (outer_indexers lkeys rkeys) = [(None, Some j)]"
  unfolding outer_indexers_def filter_append filter_snd_left_block [OF assms(2)]
    filter_snd_right_block
  using assms by simp

lemma filter_fst_unmatched:
  assumes "i < length lkeys" and "lkeys ! i \<notin> set rkeys"
  shows "filter (\<lambda>p. fst p = Some i) (outer_indexers lkeys rkeys) = [(Some i, None)]"
proof -
  have "left_matches rkeys (lkeys ! i) = []"
    using assms(2) by (simp add: left_matches_empty)
  then have "left_pairs rkeys i (lkeys ! i) = [(Some i, None)]"
    by (simp add: left_pairs_def)
  with assms(1) show ?thesis by (simp add: filter_fst_indexers)
qed




subsection \<open>Rows with a missing key\<close>

text \<open>
  Claim C3, as the code has it. \<^verbatim>\<open>pd.merge\<close> compares keys so that a missing key equals a
  missing key. In the merged frame, whose rows are the rows of the indexers in order, a row
  with a missing key is never paired with a row whose key is present, and it is paired with
  every row of the other frame whose key is missing too. When no key of the other frame is
  missing, a row with a missing key appears exactly once, with the cells of the other side
  all missing. (The counterexample: one left and one right row, both with a missing key,
  give one merged row that carries the cells of both.)
\<close>

theorem null_key_semantics:
  assumes "wf_frame df1" and "wf_frame df2"
    and "left_on \<in> set (columns df1)" and "right_on \<in> set (columns df2)"
  shows "cells (snd (merge_data df1 df2 left_on right_on))
           = map (merged_row df1 df2 left_on right_on)
               (outer_indexers (key_column df1 left_on) (key_column df2 right_on))
     \<and> (\<forall>i j. (Some i, Some j)
                 \<in> set (outer_indexers (key_column df1 left_on) (key_column df2 right_on))
            \<longrightarrow> (key_column df1 left_on ! i = None \<longleftrightarrow> key_column df2 right_on ! j = None))
     \<and> (\<forall>i<len df1. \<forall>j<len df2.
            key_column df1 left_on ! i = None \<and> key_column df2 right_on ! j = None
            \<longrightarrow> (Some i, Some j)
                  \<in> set (outer_indexers (key_column df1 left_on) (key_column df2 right_on)))
     \<and> (\<forall>i<len df1.
            key_column df1 left_on ! i = None \<and> None \<notin> set (key_column df2 right_on)
            \<longrightarrow> filter (\<lambda>p. fst p = Some i)
                   (outer_indexers (key_column df1 left_on) (key_column df2 right_on))
                  = [(Some i, None)]
                \<and> take (length (columns df1))
                     (merged_row df1 df2 left_on right_on (Some i, None)) = cells df1 ! i
                \<and> set (drop (length (columns df1))
                          (merged_row df1 df2 left_on right_on (Some i, None))) \<subseteq> {None})
     \<and> (\<forall>j<len df2.
            key_column df2 right_on ! j = None \<and> None \<notin> set (key_column df1 left_on)
            \<longrightarrow> filter (\<lambda>p. snd p = Some j)
                   (outer_indexers (key_column df1 left_on) (key_column df2 right_on))
                  = [(None, Some j)]
                \<and> drop (length (columns df1))
                     (merged_row df1 df2 left_on right_on (None, Some j))
                    = (if left_on = right_on
                       then drop_label right_on (columns df2) (cells df2 ! j)
                       else cells df2 ! j)
                \<and> (\<forall>c\<in>set (columns df1).
                      cell_at (columns df1)
                        (merged_row df1 df2 left_on right_on (None, Some j)) c = None))"
proof -
  let ?lk = "key_column df1 left_on" and ?rk = "key_column df2 right_on"
  let ?ix = "outer_indexers ?lk ?rk"
  let ?n = "length (columns df1)"
  let ?row = "merged_row df1 df2 left_on right_on"
  have 1: "cells (snd (merge_data df1 df2 left_on right_on)) = map ?row ?ix"
    using assms(3,4) by (rule merge_data_cells)
  have 2: "\<forall>i j. (Some i, Some j) \<in> set ?ix \<longrightarrow> (?lk ! i = None \<longleftrightarrow> ?rk ! j = None)"
    unfolding in_outer_indexers by auto
  have 3: "\<forall>i<len df1. \<forall>j<len df2. ?lk ! i = None \<and> ?rk ! j = None
             \<longrightarrow> (Some i, Some j) \<in> set ?ix"
    unfolding in_outer_indexers length_key_column by auto
  have 4: "\<forall>i<len df1. ?lk ! i = None \<and> None \<notin> set ?rk
            \<longrightarrow> filter (\<lambda>p. fst p = Some i) ?ix = [(Some i, None)]
                \<and> take ?n (?row (Some i, None)) = cells df1 ! i
                \<and> set (drop ?n (?row (Some i, None))) \<subseteq> {None}"
  proof (intro allI impI)
    fix i assume i: "i < len df1" and k: "?lk ! i = None \<and> None \<notin> set ?rk"
    have rng: "case fst (Some i, None :: nat option) of Some i \<Rightarrow> i < len df1 | None \<Rightarrow> True"
      using i by simp
    have a: "filter (\<lambda>p. fst p = Some i) ?ix = [(Some i, None)]"
      using i k by (intro filter_fst_unmatched) (simp_all add: length_key_column)
    have b: "take ?n (?row (Some i, None)) = cells df1 ! i"
      using merged_row_split(1) [OF assms(1) rng, of df2 left_on right_on]
      by (simp add: left_part_Some)
    have c: "set (drop ?n (?row (Some i, None))) \<subseteq> {None}"
      using merged_row_split(2) [OF assms(1) rng, of df2 left_on right_on]
        right_part_None [of df2 left_on right_on "Some i"]
      by simp
    from a b c show "filter (\<lambda>p. fst p = Some i) ?ix = [(Some i, None)]
                \<and> take ?n (?row (Some i, None)) = cells df1 ! i
                \<and> set (drop ?n (?row (Some i, None))) \<subseteq> {None}"
      by blast
  qed
  have 5: "\<forall>j<len df2. ?rk ! j = None \<and> None \<notin> set ?lk
            \<longrightarrow> filter (\<lambda>p. snd p = Some j) ?ix = [(None, Some j)]
                \<and> drop ?n (?row (None, Some j))
                    = (if left_on = right_on
                       then drop_label right_on (columns df2) (cells df2 ! j)
                       else cells df2 ! j)
                \<and> (\<forall>c\<in>set (columns df1). cell_at (columns df1) (?row (None, Some j)) c = None)"
  proof (intro allI impI)
    fix j assume j: "j < len df2" and k: "?rk ! j = None \<and> None \<notin> set ?lk"
    have rng: "case fst (None :: nat option, Some j) of Some i \<Rightarrow> i < len df1 | None \<Rightarrow> True"
      by simp
    have a: "filter (\<lambda>p. snd p = Some j) ?ix = [(None, Some j)]"
      using j k by (intro filter_snd_unmatched) (simp_all add: length_key_column)
    have b: "drop ?n (?row (None, Some j))
               = (if left_on = right_on
                  then drop_label right_on (columns df2) (cells df2 ! j)
                  else cells df2 ! j)"
      using merged_row_split(2) [OF assms(1) rng, of df2 left_on right_on]
      by (simp add: right_part_Some)
    have c: "\<forall>c\<in>set (columns df1). cell_at (columns df1) (?row (None, Some j)) c = None"
    proof
      fix c assume c: "c \<in> set (columns df1)"
      have "cell_at (columns df1) (?row (None, Some j)) c
              = cell_at (columns df1) (left_part df1 df2 left_on right_on (None, Some j)) c"
        by (rule merged_row_split(3) [OF assms(1) rng])
      also have "\<dots> = (if left_on = right_on \<and> c = left_on then ?rk ! j else None)"
        using c by (rule left_part_None_cell)
      also have "\<dots> = None" using k by simp
      finally show "cell_at (columns df1) (?row (None, Some j)) c = None" .
    qed
    from a b c show "filter (\<lambda>p. snd p = Some j) ?ix = [(None, Some j)]
                \<and> drop ?n (?row (None, Some j))
                    = (if left_on = right_on
                       then drop_label right_on (columns df2) (cells df2 ! j)
                       else cells df2 ! j)
                \<and> (\<forall>c\<in>set (columns df1). cell_at (columns df1) (?row (None, Some j)) c = None)"
      by blast
  qed
  from 1 2 3 4 5 show ?thesis by (intro conjI)
qed

theorem null_key_semantics_counterexample:
  "key_column ex_null_left ''award_id_piid'' = [None]
   \<and> key_column ex_null_right ''piid'' = [None]
   \<and> cells (snd (merge_data ex_null_left ex_null_right ''award_id_piid'' ''piid''))
       = [[None, Some ''100'', None, Some ''50'']]"
  by code_simp

theorem null_key_semantics_witness:
  "wf_frame ex_null_left \<and> wf_frame ex_doge
   \<and> ''award_id_piid'' \<in> set (columns ex_null_left) \<and> ''piid'' \<in> set (columns ex_doge)
   \<and> 0 < len ex_null_left
   \<and> key_column ex_null_left ''award_id_piid'' ! 0 = None
   \<and> None \<notin> set (key_column ex_doge ''piid'')
   \<and> filter (\<lambda>p. fst p = Some 0)
        (outer_indexers (key_column ex_null_left ''award_id_piid'') (key_column ex_doge ''piid''))
       = [(Some 0, None)]
   \<and> merged_row ex_null_left ex_doge ''award_id_piid'' ''piid'' (Some 0, None)
       = [None, Some ''100'', None, None]"
proof -
  have h1: "wf_frame ex_null_left" by code_simp
  have h2: "wf_frame ex_doge" by code_simp
  have h3: "''award_id_piid'' \<in> set (columns ex_null_left)" by (simp add: ex_null_left_def)
  have h4: "''piid'' \<in> set (columns ex_doge)" by (simp add: ex_doge_def)
  have l: "0 < len ex_null_left" by (simp add: len_def ex_null_left_def)
  have k: "key_column ex_null_left ''award_id_piid'' ! 0 = None
           \<and> None \<notin> set (key_column ex_doge ''piid'')"
    by code_simp
  have r: "merged_row ex_null_left ex_doge ''award_id_piid'' ''piid'' (Some 0, None)
             = [None, Some ''100'', None, None]"
    by code_simp
  from null_key_semantics [OF h1 h2 h3 h4]
  have "\<forall>i<len ex_null_left.
          key_column ex_null_left ''award_id_piid'' ! i = None
          \<and> None \<notin> set (key_column ex_doge ''piid'')
          \<longrightarrow> filter (\<lambda>p. fst p = Some i)
                 (outer_indexers (key_column ex_null_left ''award_id_piid'')
                    (key_column ex_doge ''piid''))
                = [(Some i, None)]
              \<and> take (length (columns ex_null_left))
                   (merged_row ex_null_left ex_doge ''award_id_piid'' ''piid'' (Some i, None))
                  = cells ex_null_left ! i
              \<and> set (drop (length (columns ex_null_left))
                        (merged_row ex_null_left ex_doge ''award_id_piid'' ''piid''
                           (Some i, None))) \<subseteq> {None}"
    by blast
  with l k have "filter (\<lambda>p. fst p = Some 0)
        (outer_indexers (key_column ex_null_left ''award_id_piid'') (key_column ex_doge ''piid''))
       = [(Some 0, None)]"
    by blast
  with h1 h2 h3 h4 l k r show ?thesis by blast
qed

end
